theory Spec2Isabelle
  imports Complex_Main
begin

section \<open>JavaScript values used by the reconciliation code\<close>

text \<open>
  A property of a JSON object is absent (reading it gives \<^verbatim>\<open>undefined\<close>), \<^verbatim>\<open>null\<close>, or a
  value. A number is a rational (the value of a binary64 number), an infinity or \<^verbatim>\<open>NaN\<close>; the
  sign of zero is not modelled.
\<close>

datatype 'a jsfield = Absent | Null | Present 'a

datatype jsnum = Num rat | PInf | NInf | NaN

text \<open>ToNumber on a numeric property: \<^verbatim>\<open>undefined\<close> becomes NaN, \<^verbatim>\<open>null\<close> becomes 0.\<close>

fun toNumber :: "rat jsfield \<Rightarrow> jsnum" where
  "toNumber Absent = NaN"
| "toNumber Null = Num 0"
| "toNumber (Present r) = Num r"

subsection \<open>Binary64 arithmetic\<close>

text \<open>
  The arithmetic of the language gives the exact result rounded to the nearest binary64
  number, ties to the even significand: 53 bits of significand, exponents from -1022 to
  1023, smaller numbers on the grid of the smallest exponent, and an infinity from
  \<open>2 ^ 1024\<close> on.
\<close>

definition pow2 :: "int \<Rightarrow> rat" where
  "pow2 e = power_int 2 e"

text \<open>The exponent of a positive number: the largest one in range whose power is below it.\<close>

definition expo :: "rat \<Rightarrow> int" where
  "expo a = Max (insert (- 1022) {e \<in> {- 1022 .. 1023}. pow2 e \<le> a})"

definition roundEven :: "rat \<Rightarrow> int" where
  "roundEven q =
     (let f = \<lfloor>q\<rfloor>; d = q - of_int f
      in if d < 1 / 2 then f else if 1 / 2 < d then f + 1 else if even f then f else f + 1)"

definition round64 :: "rat \<Rightarrow> jsnum" where
  "round64 x =
     (if x = 0 then Num 0
      else let a = \<bar>x\<bar>; u = pow2 (expo a - 52); r = of_int (roundEven (a / u)) * u
           in if pow2 1024 \<le> r then (if 0 < x then PInf else NInf)
              else Num (if 0 < x then r else - r))"

text \<open>The sign of a number, for the products and quotients of infinities.\<close>

fun sign :: "jsnum \<Rightarrow> int" where
  "sign (Num a) = (if 0 < a then 1 else if a < 0 then - 1 else 0)"
| "sign PInf = 1"
| "sign NInf = - 1"
| "sign NaN = 0"

fun jsadd :: "jsnum \<Rightarrow> jsnum \<Rightarrow> jsnum" where
  "jsadd (Num a) (Num b) = round64 (a + b)"
| "jsadd NaN y = NaN"
| "jsadd x NaN = NaN"
| "jsadd PInf NInf = NaN"
| "jsadd NInf PInf = NaN"
| "jsadd PInf y = PInf"
| "jsadd x PInf = PInf"
| "jsadd NInf y = NInf"
| "jsadd x NInf = NInf"

fun jsmul :: "jsnum \<Rightarrow> jsnum \<Rightarrow> jsnum" where
  "jsmul (Num a) (Num b) = round64 (a * b)"
| "jsmul NaN y = NaN"
| "jsmul x NaN = NaN"
| "jsmul x y =
     (if sign x * sign y = 0 then NaN else if 0 < sign x * sign y then PInf else NInf)"

text \<open>Division by a divisor that the caller has already found truthy (so not zero).\<close>

fun jsdiv :: "jsnum \<Rightarrow> rat \<Rightarrow> jsnum" where
  "jsdiv (Num a) p = round64 (a / p)"
| "jsdiv PInf p = (if 0 < p then PInf else NInf)"
| "jsdiv NInf p = (if 0 < p then NInf else PInf)"
| "jsdiv NaN p = NaN"

text \<open>\<^verbatim>\<open>Math.ceil\<close>: the ceiling of a binary64 number is one, so nothing is rounded.\<close>

fun jsceil :: "jsnum \<Rightarrow> jsnum" where
  "jsceil (Num a) = Num (of_int \<lceil>a\<rceil>)"
| "jsceil x = x"

text \<open>
  A string is its list of code points. \<open>js\<close> writes an ASCII literal. The built-in
  \<^verbatim>\<open>String.prototype.toUpperCase\<close> maps each code point to one or more code points without
  looking at its neighbours; the mapping itself belongs to the language, not to this
  program, and is a parameter \<open>up\<close> of everything that calls it. The patterns replaced
  below lie in the basic plane, where matching code units and matching code points agree.
\<close>

type_synonym jsstring = "nat list"

definition js :: "string \<Rightarrow> jsstring" where
  "js s = map of_char s"

definition toUpperCase :: "(nat \<Rightarrow> nat list) \<Rightarrow> jsstring \<Rightarrow> jsstring" where
  "toUpperCase up s = concat (map up s)"

text \<open>
  \<^verbatim>\<open>s.replace(new RegExp(p, 'g'), r)\<close> for a pattern without metacharacters: scan from the
  left, replace each occurrence and continue after it. The empty pattern matches at every
  position.
\<close>

function replaceAll :: "jsstring \<Rightarrow> jsstring \<Rightarrow> jsstring \<Rightarrow> jsstring" where
  "replaceAll p r [] = (if p = [] then r else [])"
| "replaceAll p r (x # xs) =
     (if p = [] then r @ x # replaceAll p r xs
      else if take (length p) (x # xs) = p then r @ replaceAll p r (drop (length p) (x # xs))
      else x # replaceAll p r xs)"
  by pat_completeness auto
termination
  by (relation "measure (\<lambda>(p, r, xs). length xs)") auto

section \<open>The SKU normalizer\<close>

text \<open>
  The substitution table of \<^verbatim>\<open>normalizeSku\<close>, in the order of the object literal, with the keys
  as the source file spells them: each key is the two code points U+0152 and a second one.
\<close>

definition greekToEnglish :: "(jsstring \<times> jsstring) list" where
  "greekToEnglish =
    [([0x152, 0xEB], js ''A''), ([0x152, 0xED], js ''B''), ([0x152, 0xEF], js ''E''),
     ([0x152, 0xF1], js ''Z''), ([0x152, 0xF3], js ''H''), ([0x152, 0xF4], js ''I''),
     ([0x152, 0xF6], js ''K''), ([0x152, 0xFA], js ''M''), ([0x152, 0xF9], js ''N''),
     ([0x152, 0xFC], js ''O''), ([0x152, 0xB0], js ''P''), ([0x152, 0xA7], js ''T''),
     ([0x152, 0x2022], js ''Y''), ([0x152, 0xDF], js ''X'')]"

definition applyTable :: "(jsstring \<times> jsstring) list \<Rightarrow> jsstring \<Rightarrow> jsstring" where
  "applyTable tbl s = fold (\<lambda>(greek, english) normalized. replaceAll greek english normalized) tbl s"

fun normalizeSku :: "(nat \<Rightarrow> nat list) \<Rightarrow> jsstring jsfield \<Rightarrow> jsstring" where
  "normalizeSku up (Present sku) =
     (if sku = [] then [] else applyTable greekToEnglish (toUpperCase up sku))"
| "normalizeSku up _ = []"

section \<open>Product master and line items\<close>

text \<open>
  The numeric fields of a box configuration. In a stored \<open>product_config\<close> each of them may
  be absent or \<^verbatim>\<open>null\<close> (\<open>None\<close>); in \<open>defaultBoxConfig\<close> each is a number literal.
\<close>

record 'n box_config =
  name :: "jsstring option"
  pieces_per_box :: 'n
  box_weight_kg :: 'n
  box_length_cm :: 'n
  box_width_cm :: 'n
  box_height_cm :: 'n

type_synonym product_config = "rat option box_config"

definition defaultBoxConfig :: "rat box_config" where
  "defaultBoxConfig =
     \<lparr>name = None, pieces_per_box = 48, box_weight_kg = 5,
      box_length_cm = 30, box_width_cm = 25, box_height_cm = 20\<rparr>"

text \<open>\<open>defaultBoxConfig\<close> read where a stored configuration is expected.\<close>

definition asStored :: "rat box_config \<Rightarrow> product_config" where
  "asStored d =
     \<lparr>name = name d, pieces_per_box = Some (pieces_per_box d),
      box_weight_kg = Some (box_weight_kg d), box_length_cm = Some (box_length_cm d),
      box_width_cm = Some (box_width_cm d), box_height_cm = Some (box_height_cm d)\<rparr>"

text \<open>\<^verbatim>\<open>v || d\<close> for a default \<open>d\<close> that is a number: \<open>v\<close> when it is truthy, else \<open>d\<close>.\<close>

definition orDefault :: "rat option \<Rightarrow> rat \<Rightarrow> rat" where
  "orDefault v d = (case v of None \<Rightarrow> d | Some r \<Rightarrow> if r = 0 then d else r)"

text \<open>
  The product master is the list of its own entries in the order \<^verbatim>\<open>Object.entries\<close> gives
  them. It is a plain object, so \<^verbatim>\<open>productMaster[key]\<close> finds an own entry or else a property
  inherited from \<^verbatim>\<open>Object.prototype\<close>. Each inherited property is a function or an object,
  which is truthy and has none of the five numeric fields of a configuration, the only
  fields the code reads: what the code reads of it is a configuration with every field
  absent.
\<close>

type_synonym product_master = "(jsstring \<times> product_config) list"

definition objectPrototypeNames :: "jsstring list" where
  "objectPrototypeNames =
     map js [''constructor'', ''hasOwnProperty'', ''isPrototypeOf'', ''propertyIsEnumerable'',
       ''toLocaleString'', ''toString'', ''valueOf'', ''__proto__'', ''__defineGetter__'',
       ''__defineSetter__'', ''__lookupGetter__'', ''__lookupSetter__'']"

definition inheritedMember :: product_config where
  "inheritedMember =
     \<lparr>name = None, pieces_per_box = None, box_weight_kg = None,
      box_length_cm = None, box_width_cm = None, box_height_cm = None\<rparr>"

definition lookupKey :: "product_master \<Rightarrow> jsstring \<Rightarrow> product_config option" where
  "lookupKey productMaster key =
     (case map_of productMaster key of
        Some config \<Rightarrow> Some config
      | None \<Rightarrow> if key \<in> set objectPrototypeNames then Some inheritedMember else None)"

text \<open>
  A raw line item; \<open>passthrough\<close> stands for all fields the code only copies. The enriched
  item is the raw item with five more fields; its \<^verbatim>\<open>pieces_per_box\<close> and \<^verbatim>\<open>box_weight_kg\<close> are
  written \<open>item_pieces_per_box\<close> and \<open>item_box_weight_kg\<close>, apart from the fields of the
  same names of a configuration.
\<close>

record 'p line_item =
  sku :: "jsstring jsfield"
  quantity :: "rat jsfield"
  taxable_value :: "rat jsfield"
  passthrough :: 'p

record 'p enriched_item = "'p line_item" +
  item_pieces_per_box :: rat
  item_box_weight_kg :: rat
  box_dimensions :: jsstring
  num_boxes :: jsnum
  total_weight :: jsnum

datatype matchType = Exact | Normalized | Fuzzy | Default

text \<open>A property key made from a value that may be \<^verbatim>\<open>undefined\<close> or \<^verbatim>\<open>null\<close>.\<close>

fun propertyKey :: "jsstring jsfield \<Rightarrow> jsstring" where
  "propertyKey Absent = js ''undefined''"
| "propertyKey Null = js ''null''"
| "propertyKey (Present s) = s"

section \<open>\<^verbatim>\<open>recalculateItems\<close>\<close>

text \<open>
  The variables \<^verbatim>\<open>config\<close> and \<^verbatim>\<open>matchType\<close> after the chain of lookups in the callback of
  \<^verbatim>\<open>recalculateItems\<close>. A stored configuration is an object and so truthy. The match type
  is only written to the console.
\<close>

definition matchConfig ::
  "(nat \<Rightarrow> nat list) \<Rightarrow> product_master \<Rightarrow> jsstring jsfield \<Rightarrow> product_config \<times> matchType" where
  "matchConfig up productMaster itemSku =
     (let normalizedSku = normalizeSku up itemSku in
      case lookupKey productMaster (propertyKey itemSku) of
        Some config \<Rightarrow> (config, Exact)
      | None \<Rightarrow>
         (case lookupKey productMaster normalizedSku of
            Some config \<Rightarrow> (config, Normalized)
          | None \<Rightarrow>
             (case find (\<lambda>(key, _). normalizeSku up (Present key) = normalizedSku) productMaster of
                Some found \<Rightarrow> (snd found, Fuzzy)
              | None \<Rightarrow> (asStored defaultBoxConfig, Default))))"

text \<open>The separator of the dimensions string, as the source file spells it: U+221A, U+00F3.\<close>

definition dimSep :: jsstring where
  "dimSep = [0x221A, 0xF3]"

text \<open>
  The object the callback returns for a resolved \<^verbatim>\<open>config\<close>. \<open>str\<close> is the conversion of a
  number to a string that a template literal applies.
\<close>

definition enrich ::
  "(rat \<Rightarrow> jsstring) \<Rightarrow> product_config \<Rightarrow> 'p line_item \<Rightarrow> 'p enriched_item" where
  "enrich str config item =
     (let piecesPerBox = orDefault (pieces_per_box config) (pieces_per_box defaultBoxConfig);
          boxWeight = orDefault (box_weight_kg config) (box_weight_kg defaultBoxConfig);
          numBoxes = jsceil (jsdiv (toNumber (quantity item)) piecesPerBox)
      in \<lparr>sku = sku item, quantity = quantity item, taxable_value = taxable_value item,
          passthrough = passthrough item,
          item_pieces_per_box = piecesPerBox,
          item_box_weight_kg = boxWeight,
          box_dimensions =
            str (orDefault (box_length_cm config) (box_length_cm defaultBoxConfig)) @ dimSep @
            str (orDefault (box_width_cm config) (box_width_cm defaultBoxConfig)) @ dimSep @
            str (orDefault (box_height_cm config) (box_height_cm defaultBoxConfig)),
          num_boxes = numBoxes,
          total_weight = jsmul numBoxes (Num boxWeight)\<rparr>)"

definition recalculateItem ::
  "(nat \<Rightarrow> nat list) \<Rightarrow> (rat \<Rightarrow> jsstring) \<Rightarrow> product_master \<Rightarrow> 'p line_item \<Rightarrow> 'p enriched_item" where
  "recalculateItem up str productMaster item =
     enrich str (fst (matchConfig up productMaster (sku item))) item"

text \<open>
  \<^verbatim>\<open>lineItems || extractedData?.line_items || []\<close>: the argument, else the line items of the
  extraction kept in the component's state, else nothing.
\<close>

definition sourceItems :: "'a list option \<Rightarrow> 'a list option \<Rightarrow> 'a list" where
  "sourceItems lineItems extracted =
     (case lineItems of Some l \<Rightarrow> l
      | None \<Rightarrow> (case extracted of Some l \<Rightarrow> l | None \<Rightarrow> []))"

definition recalculateItems ::
  "(nat \<Rightarrow> nat list) \<Rightarrow> (rat \<Rightarrow> jsstring) \<Rightarrow> product_master \<Rightarrow> 'p line_item list option \<Rightarrow>
   'p line_item list option \<Rightarrow> 'p enriched_item list" where
  "recalculateItems up str productMaster extracted lineItems =
     map (recalculateItem up str productMaster) (sourceItems lineItems extracted)"

section \<open>Totals\<close>

text \<open>The accumulator of the totals; its field \<^verbatim>\<open>quantity\<close> is written \<open>t_quantity\<close>.\<close>

record totals_record =
  t_quantity :: jsnum
  boxes :: jsnum
  weight :: jsnum
  "value" :: jsnum

text \<open>The callback of \<^verbatim>\<open>reduce\<close> and the totals it accumulates from zero.\<close>

definition totalsStep :: "totals_record \<Rightarrow> 'p enriched_item \<Rightarrow> totals_record" where
  "totalsStep acc item =
     \<lparr>t_quantity = jsadd (t_quantity acc) (toNumber (quantity item)),
      boxes = jsadd (boxes acc) (num_boxes item),
      weight = jsadd (weight acc) (total_weight item),
      value = jsadd (value acc) (toNumber (taxable_value item))\<rparr>"

definition totals :: "'p enriched_item list \<Rightarrow> totals_record" where
  "totals processedItems =
     foldl totalsStep \<lparr>t_quantity = Num 0, boxes = Num 0, weight = Num 0, value = Num 0\<rparr>
       processedItems"

text \<open>
  Reconciliation is \<^verbatim>\<open>recalculateItems\<close> on the line items of an extraction, followed by the
  totals the component derives from the processed items.
\<close>

definition reconcile ::
  "(nat \<Rightarrow> nat list) \<Rightarrow> (rat \<Rightarrow> jsstring) \<Rightarrow> product_master \<Rightarrow> 'p line_item list \<Rightarrow>
   'p enriched_item list \<times> totals_record" where
  "reconcile up str productMaster lineItems =
     (let items = recalculateItems up str productMaster None (Some lineItems)
      in (items, totals items))"

section \<open>Invoice history of the local server\<close>

text \<open>
  A JSON object is a map from property names to values. \<open>now\<close> and \<open>stamp\<close> are the values of
  \<^verbatim>\<open>Date.now()\<close> and \<^verbatim>\<open>new Date().toISOString()\<close>; the file \<^verbatim>\<open>invoices.json\<close> is \<open>None\<close> while it
  does not exist.
\<close>

type_synonym 'v jsobject = "string \<rightharpoonup> 'v"

definition newInvoice :: "'v \<Rightarrow> 'v \<Rightarrow> 'v jsobject \<Rightarrow> 'v jsobject" where
  "newInvoice now stamp body = ([''id'' \<mapsto> now] ++ body)(''created_at'' \<mapsto> stamp)"

text \<open>\<^verbatim>\<open>readJSON('invoices.json') || []\<close>\<close>

definition readInvoices :: "'a list option \<Rightarrow> 'a list" where
  "readInvoices file = (case file of None \<Rightarrow> [] | Some l \<Rightarrow> l)"

text \<open>The handler of \<^verbatim>\<open>POST /api/invoices\<close>: the file it writes and the invoice it answers with.\<close>

definition post_invoices ::
  "'v \<Rightarrow> 'v \<Rightarrow> 'v jsobject \<Rightarrow> 'v jsobject list option \<Rightarrow> 'v jsobject list option \<times> 'v jsobject" where
  "post_invoices now stamp body file =
     (let invoices = readInvoices file;
          invoices1 = newInvoice now stamp body # invoices;
          invoices2 = (if length invoices1 > 100 then take 100 invoices1 else invoices1)
      in (Some invoices2, newInvoice now stamp body))"

section \<open>Vocabulary of the proofs and of the examples\<close>

text \<open>
  What the proofs need of the built-in upper-casing: a code point it produces is not changed
  by it again, and neither are the letters the table substitutes.
\<close>

definition upperStable :: "(nat \<Rightarrow> nat list) \<Rightarrow> bool" where
  "upperStable up \<longleftrightarrow>
     (\<forall>c. \<forall>d \<in> set (up c). up d = [d]) \<and>
     (\<forall>(greek, english) \<in> set greekToEnglish. \<forall>d \<in> set english. up d = [d])"

text \<open>
  The binary64 numbers are the rationals that rounding leaves alone; every number the
  language computes with is one of them, an infinity or NaN.
\<close>

definition binary64 :: "rat \<Rightarrow> bool" where
  "binary64 a \<longleftrightarrow> round64 a = Num a"

fun js64 :: "jsnum \<Rightarrow> bool" where
  "js64 (Num a) = binary64 a"
| "js64 x = True"

text \<open>Replacing a pattern of two code points by one code point, and the pattern occurring.\<close>

fun rep2 :: "nat \<Rightarrow> nat \<Rightarrow> nat \<Rightarrow> nat list \<Rightarrow> nat list" where
  "rep2 a b c (x # y # zs) =
     (if x = a \<and> y = b then c # rep2 a b c zs else x # rep2 a b c (y # zs))"
| "rep2 a b c xs = xs"

fun adj :: "nat \<Rightarrow> nat \<Rightarrow> nat list \<Rightarrow> bool" where
  "adj a b (x # y # zs) = (x = a \<and> y = b \<or> adj a b (y # zs))"
| "adj a b xs = False"

definition enc :: "nat \<times> nat \<times> nat \<Rightarrow> jsstring \<times> jsstring" where
  "enc t = (case t of (a, b, c) \<Rightarrow> ([a, b], [c]))"

definition greekPairs :: "(nat \<times> nat \<times> nat) list" where
  "greekPairs =
    [(0x152, 0xEB, 65), (0x152, 0xED, 66), (0x152, 0xEF, 69), (0x152, 0xF1, 90),
     (0x152, 0xF3, 72), (0x152, 0xF4, 73), (0x152, 0xF6, 75), (0x152, 0xFA, 77),
     (0x152, 0xF9, 78), (0x152, 0xFC, 79), (0x152, 0xB0, 80), (0x152, 0xA7, 84),
     (0x152, 0x2022, 89), (0x152, 0xDF, 88)]"

text \<open>No substituted letter is part of a pattern of the table.\<close>

definition goodTable :: "(nat \<times> nat \<times> nat) list \<Rightarrow> bool" where
  "goodTable ts \<longleftrightarrow>
     (\<forall>(a, b, c) \<in> set ts. \<forall>(a', b', c') \<in> set ts. c \<noteq> a' \<and> c \<noteq> b')"

text \<open>
  For the examples: upper-casing on ASCII, and the decimal numeral of a natural number, which
  is what the conversion of a number to a string gives on whole numbers.
\<close>

definition asciiUpper :: "nat \<Rightarrow> nat list" where
  "asciiUpper c = (if 97 \<le> c \<and> c \<le> 122 then [c - 32] else [c])"

function decimal :: "nat \<Rightarrow> jsstring" where
  "decimal n = (if n < 10 then [48 + n] else decimal (n div 10) @ [48 + n mod 10])"
  by pat_completeness auto
termination
  by (relation "measure id") auto

definition strNat :: "rat \<Rightarrow> jsstring" where
  "strNat r = decimal (nat \<lfloor>r\<rfloor>)"

text \<open>The master and the line item of the end-to-end scenario, and an item without quantity.\<close>

definition prod001 :: product_config where
  "prod001 = \<lparr>name = None, pieces_per_box = Some 50, box_weight_kg = Some 4,
     box_length_cm = Some 30, box_width_cm = Some 20, box_height_cm = Some 15\<rparr>"

definition master1 :: product_master where
  "master1 = [(js ''PROD-001'', prod001)]"

definition item1 :: "unit line_item" where
  "item1 = \<lparr>sku = Present (js ''PROD-001''), quantity = Present 120,
     taxable_value = Present 1000, passthrough = ()\<rparr>"

definition itemNoQuantity :: "unit line_item" where
  "itemNoQuantity = \<lparr>sku = Present (js ''PROD-001''), quantity = Absent,
     taxable_value = Present 1000, passthrough = ()\<rparr>"

definition itemNoSku :: "unit line_item" where
  "itemNoSku = \<lparr>sku = Absent, quantity = Present 48,
     taxable_value = Present 10, passthrough = ()\<rparr>"

text \<open>A master whose only key is in lower case, and configurations with unusual fields.\<close>

definition masterLower :: product_master where
  "masterLower = [(js ''prod-001'', prod001)]"

text \<open>A master with an upper-case key that in lower case names an inherited property.\<close>

definition masterConstructor :: product_master where
  "masterConstructor = [(js ''CONSTRUCTOR'', prod001)]"

definition itemConstructor :: "unit line_item" where
  "itemConstructor = \<lparr>sku = Present (js ''constructor''), quantity = Present 120,
     taxable_value = Present 1000, passthrough = ()\<rparr>"

definition negativeConfig :: product_config where
  "negativeConfig = \<lparr>name = None, pieces_per_box = Some (- 5), box_weight_kg = Some 4,
     box_length_cm = Some 30, box_width_cm = Some 20, box_height_cm = Some 15\<rparr>"

definition partialConfig :: product_config where
  "partialConfig = \<lparr>name = None, pieces_per_box = None, box_weight_kg = Some 0,
     box_length_cm = Some 40, box_width_cm = None, box_height_cm = Some 0\<rparr>"

section \<open>The normalizer is idempotent\<close>

lemma greekToEnglish_enc: "greekToEnglish = map enc greekPairs"
  by (simp add: greekToEnglish_def greekPairs_def enc_def js_def)

lemma replaceAll_rep2: "replaceAll [a, b] [c] xs = rep2 a b c xs"
  by (induction a b c xs rule: rep2.induct) simp_all

lemma rep2_hd:
  "rep2 a b c xs = [] \<or> hd (rep2 a b c xs) = c \<and> adj a b xs \<or>
   (xs \<noteq> [] \<and> hd (rep2 a b c xs) = hd xs)"
  by (induction a b c xs rule: rep2.induct) auto

lemma adj_Cons: "adj a b (x # xs) \<longleftrightarrow> (xs \<noteq> [] \<and> x = a \<and> hd xs = b) \<or> adj a b xs"
  by (cases xs) auto

text \<open>A replacement creates no occurrence of a pattern its letter is not part of.\<close>

lemma rep2_no_new:
  "\<not> adj a' b' xs \<Longrightarrow> c \<noteq> a' \<Longrightarrow> c \<noteq> b' \<Longrightarrow> \<not> adj a' b' (rep2 a b c xs)"
proof (induction a b c xs rule: rep2.induct)
  case (1 a b c x y zs)
  show ?case
  proof (cases "x = a \<and> y = b")
    case True
    with 1 have "\<not> adj a' b' (rep2 a b c zs)"
      by (cases zs) auto
    with True 1 show ?thesis by (simp add: adj_Cons)
  next
    case False
    with 1 have ih: "\<not> adj a' b' (rep2 a b c (y # zs))" by auto
    from 1 have xy: "\<not> (x = a' \<and> y = b')" by auto
    from rep2_hd [of a b c "y # zs"] xy 1(4,5) ih False show ?thesis
      by (auto simp add: adj_Cons)
  qed
qed simp_all

lemma rep2_removes:
  "c \<noteq> a \<Longrightarrow> c \<noteq> b \<Longrightarrow> \<not> adj a b (rep2 a b c xs)"
proof (induction a b c xs rule: rep2.induct)
  case (1 a b c x y zs)
  show ?case
  proof (cases "x = a \<and> y = b")
    case True
    with 1 show ?thesis by (simp add: adj_Cons)
  next
    case False
    with 1 have ih: "\<not> adj a b (rep2 a b c (y # zs))" by auto
    from rep2_hd [of a b c "y # zs"] 1(3,4) ih False show ?thesis
      by (auto simp add: adj_Cons)
  qed
qed simp_all

lemma rep2_id: "\<not> adj a b xs \<Longrightarrow> rep2 a b c xs = xs"
  by (induction a b c xs rule: rep2.induct) auto

lemma set_rep2: "set (rep2 a b c xs) \<subseteq> insert c (set xs)"
  by (induction a b c xs rule: rep2.induct) auto

lemma applyTable_Nil: "applyTable [] xs = xs"
  by (simp add: applyTable_def)

lemma applyTable_Cons:
  "applyTable (enc (a, b, c) # tbl) xs = applyTable tbl (rep2 a b c xs)"
  by (simp add: applyTable_def enc_def replaceAll_rep2)

lemma applyTable_no_new:
  "\<not> adj a' b' xs \<Longrightarrow> \<forall>(a, b, c) \<in> set ts. c \<noteq> a' \<and> c \<noteq> b' \<Longrightarrow>
   \<not> adj a' b' (applyTable (map enc ts) xs)"
proof (induction ts arbitrary: xs)
  case Nil
  then show ?case by (simp add: applyTable_Nil)
next
  case (Cons t ts)
  obtain a b c where t: "t = (a, b, c)" by (cases t)
  with Cons.prems have "\<not> adj a' b' (rep2 a b c xs)"
    by (simp add: rep2_no_new)
  with Cons.IH Cons.prems show ?case
    by (simp add: t applyTable_Cons)
qed

text \<open>After the whole table, no pattern of the table occurs.\<close>

lemma applyTable_removes:
  "goodTable ts \<Longrightarrow> (a', b', c') \<in> set ts \<Longrightarrow> \<not> adj a' b' (applyTable (map enc ts) xs)"
proof (induction ts arbitrary: xs)
  case Nil
  then show ?case by simp
next
  case (Cons t ts)
  obtain a b c where t: "t = (a, b, c)" by (cases t)
  from Cons.prems(1) have good: "goodTable ts"
    by (auto simp: goodTable_def)
  show ?case
  proof (cases "(a', b', c') = t")
    case True
    with t Cons.prems(1) have "c \<noteq> a" "c \<noteq> b" and
      others: "\<forall>(a2, b2, c2) \<in> set ts. c2 \<noteq> a' \<and> c2 \<noteq> b'"
      by (auto simp: goodTable_def)
    then have "\<not> adj a b (rep2 a b c xs)" by (simp add: rep2_removes)
    with True t have "\<not> adj a' b' (rep2 a b c xs)" by simp
    from applyTable_no_new [OF this others] show ?thesis
      by (simp add: t applyTable_Cons)
  next
    case False
    with Cons.prems(2) have "(a', b', c') \<in> set ts" by auto
    from Cons.IH [OF good this] show ?thesis
      by (simp add: t applyTable_Cons)
  qed
qed

lemma applyTable_id:
  "\<forall>(a, b, c) \<in> set ts. \<not> adj a b xs \<Longrightarrow> applyTable (map enc ts) xs = xs"
proof (induction ts)
  case Nil
  then show ?case by (simp add: applyTable_Nil)
next
  case (Cons t ts)
  obtain a b c where t: "t = (a, b, c)" by (cases t)
  with Cons show ?case
    by (simp add: applyTable_Cons rep2_id)
qed

lemma set_applyTable:
  "set (applyTable (map enc ts) xs) \<subseteq> set xs \<union> (\<lambda>(a, b, c). c) ` set ts"
proof (induction ts arbitrary: xs)
  case Nil
  then show ?case by (simp add: applyTable_Nil)
next
  case (Cons t ts)
  obtain a b c where t: "t = (a, b, c)" by (cases t)
  from Cons.IH [of "rep2 a b c xs"] set_rep2 [of a b c xs] show ?case
    by (auto simp add: t applyTable_Cons)
qed

lemma goodTable_greekPairs: "goodTable greekPairs"
  by (simp add: goodTable_def greekPairs_def)

lemma toUpperCase_fixed: "\<forall>d \<in> set s. up d = [d] \<Longrightarrow> toUpperCase up s = s"
  by (induction s) (simp_all add: toUpperCase_def)

lemma upperStable_english:
  "upperStable up \<Longrightarrow> (a, b, c) \<in> set greekPairs \<Longrightarrow> up c = [c]"
  unfolding upperStable_def greekToEnglish_enc
  by (force simp: enc_def)

lemma normalized_fixed:
  assumes "upperStable up"
  shows "applyTable greekToEnglish (toUpperCase up (applyTable greekToEnglish (toUpperCase up s)))
         = applyTable greekToEnglish (toUpperCase up s)"
proof -
  define r where "r = applyTable greekToEnglish (toUpperCase up s)"
  have "\<forall>d \<in> set (toUpperCase up s). up d = [d]"
    using assms(1) by (auto simp: upperStable_def toUpperCase_def)
  moreover have "set r \<subseteq> set (toUpperCase up s) \<union> (\<lambda>(a, b, c). c) ` set greekPairs"
    unfolding r_def greekToEnglish_enc by (rule set_applyTable)
  ultimately have "\<forall>d \<in> set r. up d = [d]"
    using upperStable_english [OF assms(1)] by fastforce
  then have up: "toUpperCase up r = r" by (rule toUpperCase_fixed)
  have "\<forall>(a, b, c) \<in> set greekPairs. \<not> adj a b r"
    unfolding r_def greekToEnglish_enc
    using applyTable_removes [OF goodTable_greekPairs] by blast
  then have "applyTable (map enc greekPairs) r = r" by (rule applyTable_id)
  with up show ?thesis by (simp add: greekToEnglish_enc r_def)
qed

lemma normalizeSku_fixed:
  "upperStable up \<Longrightarrow> normalizeSku up (Present (normalizeSku up x)) = normalizeSku up x"
  by (cases x) (simp_all add: normalized_fixed)

lemma upperStable_asciiUpper: "upperStable asciiUpper"
  by (auto simp: upperStable_def asciiUpper_def greekToEnglish_def js_def)

lemma normalizeSku_lower: "normalizeSku asciiUpper (Present (js ''prod-001'')) = js ''PROD-001''"
  by (simp add: greekToEnglish_def js_def toUpperCase_def asciiUpper_def applyTable_def)

lemma normalizeSku_upper: "normalizeSku asciiUpper (Present (js ''PROD-001'')) = js ''PROD-001''"
  by (simp add: greekToEnglish_def js_def toUpperCase_def asciiUpper_def applyTable_def)

lemma normalizeSku_table:
  "normalizeSku asciiUpper (Present ([0x152, 0xB0] @ js ''rod-001'')) = js ''PROD-001''"
  by (simp add: greekToEnglish_def js_def toUpperCase_def asciiUpper_def applyTable_def)

text \<open>
  C8: \<^verbatim>\<open>normalizeSku\<close> is idempotent, for every string and for every upper-casing that leaves
  its own results and the substituted letters alone; for \<^verbatim>\<open>null\<close> and for an absent SKU it
  returns the empty string.
\<close>

theorem normalizeSku_idempotent:
  assumes "upperStable up"
  shows "normalizeSku up (Present (normalizeSku up (Present x))) = normalizeSku up (Present x) \<and>
         normalizeSku up Null = [] \<and> normalizeSku up Absent = []"
proof (intro conjI)
  from assms show "normalizeSku up (Present (normalizeSku up (Present x))) = normalizeSku up (Present x)"
    by (rule normalizeSku_fixed)
qed simp_all

theorem normalizeSku_idempotent_witness:
  "upperStable asciiUpper \<and>
   normalizeSku asciiUpper (Present (normalizeSku asciiUpper (Present ([0x152, 0xB0] @ js ''rod-001''))))
     = js ''PROD-001'' \<and>
   normalizeSku asciiUpper Null = [] \<and> normalizeSku asciiUpper Absent = []"
proof -
  note t = normalizeSku_idempotent [OF upperStable_asciiUpper, of "[0x152, 0xB0] @ js ''rod-001''"]
  from t have a: "normalizeSku asciiUpper
      (Present (normalizeSku asciiUpper (Present ([0x152, 0xB0] @ js ''rod-001''))))
    = normalizeSku asciiUpper (Present ([0x152, 0xB0] @ js ''rod-001''))"
    by (rule conjunct1)
  from t have b: "normalizeSku asciiUpper Null = [] \<and> normalizeSku asciiUpper Absent = []"
    by (rule conjunct2)
  from a normalizeSku_table have "normalizeSku asciiUpper
      (Present (normalizeSku asciiUpper (Present ([0x152, 0xB0] @ js ''rod-001''))))
    = js ''PROD-001''"
    by (rule trans)
  with upperStable_asciiUpper b show ?thesis by blast
qed

section \<open>Matching a SKU\<close>

lemma lookupKey_own: "map_of productMaster key = Some c \<Longrightarrow> lookupKey productMaster key = Some c"
  by (simp add: lookupKey_def)

lemma lookupKey_None:
  "map_of productMaster key = None \<Longrightarrow> key \<notin> set objectPrototypeNames \<Longrightarrow>
   lookupKey productMaster key = None"
  by (simp add: lookupKey_def)

lemma lookupKey_NoneD:
  "lookupKey productMaster key = None \<Longrightarrow>
   map_of productMaster key = None \<and> key \<notin> set objectPrototypeNames"
  by (auto simp: lookupKey_def split: option.splits if_splits)

lemma lookupKey_inherited:
  "map_of productMaster key = None \<Longrightarrow> key \<in> set objectPrototypeNames \<Longrightarrow>
   lookupKey productMaster key = Some inheritedMember"
  by (simp add: lookupKey_def)

lemma constructor_inherited: "js ''constructor'' \<in> set objectPrototypeNames"
  by (simp add: objectPrototypeNames_def)

lemma undefined_not_inherited: "js ''undefined'' \<notin> set objectPrototypeNames"
  by (simp add: objectPrototypeNames_def js_def)

lemma empty_not_inherited: "[] \<notin> set objectPrototypeNames"
  by (simp add: objectPrototypeNames_def js_def)

text \<open>
  C4: a SKU that is a key of the product master is resolved at the exact tier, to the
  configuration the master holds for it.
\<close>

theorem match_exact:
  "map_of productMaster s = Some c \<Longrightarrow> matchConfig up productMaster (Present s) = (c, Exact)"
  by (simp add: matchConfig_def lookupKey_own)

theorem match_exact_witness:
  "map_of master1 (js ''PROD-001'') = Some prod001 \<and>
   matchConfig asciiUpper master1 (Present (js ''PROD-001'')) = (prod001, Exact)"
proof -
  have h: "map_of master1 (js ''PROD-001'') = Some prod001"
    by (simp add: master1_def)
  from h match_exact [OF h, of asciiUpper] show ?thesis by simp
qed

lemma find_Some_mem: "find P xs = Some x \<Longrightarrow> x \<in> set xs \<and> P x"
  by (induction xs) (auto split: if_splits)

text \<open>When all three lookups of the code find nothing, the default configuration is taken.\<close>

lemma matchConfig_default:
  assumes "lookupKey productMaster (propertyKey itemSku) = None"
    and "lookupKey productMaster (normalizeSku up itemSku) = None"
    and "\<forall>(key, c) \<in> set productMaster. normalizeSku up (Present key) \<noteq> normalizeSku up itemSku"
  shows "matchConfig up productMaster itemSku = (asStored defaultBoxConfig, Default)"
proof -
  have "find (\<lambda>(key, _). normalizeSku up (Present key) = normalizeSku up itemSku) productMaster = None"
    using assms(3) by (auto simp: find_None_iff)
  with assms(1,2) show ?thesis
    by (simp add: matchConfig_def)
qed

text \<open>
  When the first lookup of the code finds nothing and some key of the master has the
  normalization of the SKU, the normalized or the fuzzy tier resolves it.
\<close>

lemma matchConfig_normalized_or_fuzzy:
  assumes "lookupKey productMaster s = None"
    and "(k, c) \<in> set productMaster"
    and "normalizeSku up (Present k) = normalizeSku up (Present s)"
  shows "snd (matchConfig up productMaster (Present s)) \<in> {Normalized, Fuzzy}"
proof (cases "lookupKey productMaster (normalizeSku up (Present s))")
  case (Some c')
  with assms(1) show ?thesis
    by (simp add: matchConfig_def del: normalizeSku.simps)
next
  case None
  let ?P = "\<lambda>(key, _::product_config). normalizeSku up (Present key) = normalizeSku up (Present s)"
  from assms(2,3) have "\<exists>e \<in> set productMaster. ?P e"
    by (auto simp del: normalizeSku.simps)
  then obtain found where f: "find ?P productMaster = Some found"
    by (cases "find ?P productMaster") (auto simp: find_None_iff simp del: normalizeSku.simps)
  with assms(1) None show ?thesis
    by (simp add: matchConfig_def del: normalizeSku.simps)
qed

lemma normalizeSku_xyz: "normalizeSku asciiUpper (Present (js ''XYZ-999'')) = js ''XYZ-999''"
  by (simp add: greekToEnglish_def js_def toUpperCase_def asciiUpper_def applyTable_def)

lemma normalizeSku_mixed: "normalizeSku asciiUpper (Present (js ''Prod-001'')) = js ''PROD-001''"
  by (simp add: greekToEnglish_def js_def toUpperCase_def asciiUpper_def applyTable_def)

lemma normalizeSku_constructor:
  "normalizeSku asciiUpper (Present (js ''constructor'')) = js ''CONSTRUCTOR''"
  by (simp add: greekToEnglish_def js_def toUpperCase_def asciiUpper_def applyTable_def)

lemma normalizeSku_CONSTRUCTOR:
  "normalizeSku asciiUpper (Present (js ''CONSTRUCTOR'')) = js ''CONSTRUCTOR''"
  by (simp add: greekToEnglish_def js_def toUpperCase_def asciiUpper_def applyTable_def)

text \<open>The lower-case key is found by the scan, at the fuzzy tier.\<close>

lemma matchConfig_fuzzy_example:
  "matchConfig asciiUpper masterLower (Present (js ''Prod-001'')) = (prod001, Fuzzy)"
  by (simp add: matchConfig_def lookupKey_def objectPrototypeNames_def masterLower_def
      greekToEnglish_def js_def toUpperCase_def asciiUpper_def applyTable_def)

lemma matchConfig_constructor:
  "map_of productMaster (js ''constructor'') = None \<Longrightarrow>
   matchConfig up productMaster (Present (js ''constructor'')) = (inheritedMember, Exact)"
  by (simp add: matchConfig_def lookupKey_inherited constructor_inherited del: normalizeSku.simps)

section \<open>Rounding to binary64\<close>

lemma pow2_pos [simp]: "0 < pow2 e"
  by (simp add: pow2_def)

lemma pow2_nonneg [simp]: "0 \<le> pow2 e"
  by (simp add: pow2_def)

lemma pow2_mono: "e \<le> f \<Longrightarrow> pow2 e \<le> pow2 f"
  by (simp add: pow2_def power_int_increasing)

lemma pow2_less: "pow2 e < pow2 f \<Longrightarrow> e < f"
  using pow2_mono [of f e] by (cases "e < f") auto

lemma pow2_strict: "e < f \<Longrightarrow> pow2 e < pow2 f"
  by (simp add: pow2_def power_int_strict_increasing)

lemma pow2_le: "pow2 e \<le> pow2 f \<Longrightarrow> e \<le> f"
  using pow2_strict [of f e] by (cases "e \<le> f") auto

lemma pow2_add: "pow2 (e + f) = pow2 e * pow2 f"
  by (simp add: pow2_def power_int_add)

lemma pow2_inverse: "pow2 (- e) * pow2 e = 1"
  using pow2_add [of "- e" e] by (simp add: pow2_def)

lemma pow2_nat: "0 \<le> e \<Longrightarrow> pow2 e = of_int (2 ^ nat e)"
  by (simp add: pow2_def power_int_def)

lemma expo_finite: "finite (insert (- 1022) {e \<in> {- 1022 .. 1023}. pow2 e \<le> a})"
  by (rule finite.insertI, rule finite_subset [of _ "{- 1022 .. 1023}"]) auto

lemma expo_nonempty: "insert (- 1022) {e \<in> {- 1022 .. 1023}. pow2 e \<le> a} \<noteq> {}"
  by blast

lemma expo_unique:
  assumes "- 1022 \<le> e" "e \<le> 1023" "pow2 e \<le> a" "a < pow2 (e + 1)"
  shows "expo a = e"
  unfolding expo_def
proof (rule Max_eqI)
  show "finite (insert (- 1022) {e \<in> {- 1022 .. 1023}. pow2 e \<le> a})" by (rule expo_finite)
  show "e \<in> insert (- 1022) {e \<in> {- 1022 .. 1023}. pow2 e \<le> a}"
    using assms by simp
  fix y assume "y \<in> insert (- 1022) {e \<in> {- 1022 .. 1023}. pow2 e \<le> a}"
  then have "y = - 1022 \<or> pow2 y \<le> a" by auto
  then show "y \<le> e"
  proof
    assume "y = - 1022" with assms(1) show ?thesis by simp
  next
    assume "pow2 y \<le> a"
    with assms(4) have "pow2 y < pow2 (e + 1)" by simp
    then have "y < e + 1" by (rule pow2_less)
    then show ?thesis by simp
  qed
qed

lemma expo_range: "- 1022 \<le> expo a \<and> expo a \<le> 1023"
proof -
  let ?S = "insert (- 1022) {e \<in> {- 1022 .. 1023}. pow2 e \<le> a}"
  have "Max ?S \<in> ?S" by (rule Max_in [OF expo_finite expo_nonempty])
  then show ?thesis unfolding expo_def by auto
qed

lemma expo_lower: "pow2 (- 1022) \<le> a \<Longrightarrow> pow2 (expo a) \<le> a"
proof -
  assume a: "pow2 (- 1022) \<le> a"
  let ?S = "insert (- 1022) {e \<in> {- 1022 .. 1023}. pow2 e \<le> a}"
  have "Max ?S \<in> ?S" by (rule Max_in [OF expo_finite expo_nonempty])
  with a show ?thesis unfolding expo_def by auto
qed

lemma expo_upper: "a < pow2 1024 \<Longrightarrow> a < pow2 (expo a + 1)"
proof (rule ccontr)
  assume a: "a < pow2 1024" and n: "\<not> a < pow2 (expo a + 1)"
  let ?S = "insert (- 1022) {e \<in> {- 1022 .. 1023}. pow2 e \<le> a}"
  from n have le: "pow2 (expo a + 1) \<le> a" by simp
  with a have "pow2 (expo a + 1) < pow2 1024" by simp
  then have "expo a + 1 < 1024" by (rule pow2_less)
  with expo_range [of a] le have "expo a + 1 \<in> ?S" by simp
  then have "expo a + 1 \<le> Max ?S" by (rule Max_ge [OF expo_finite])
  then show False by (simp add: expo_def)
qed

lemma roundEven_of_int [simp]: "roundEven (of_int n) = n"
  by (simp add: roundEven_def)

lemma roundEven_near: "\<bar>of_int (roundEven q) - q\<bar> \<le> 1 / 2"
proof -
  have "of_int \<lfloor>q\<rfloor> \<le> q" "q < of_int \<lfloor>q\<rfloor> + 1" by linarith+
  then show ?thesis
    by (auto simp: roundEven_def Let_def)
qed

text \<open>A positive number on the grid of its own exponent is not changed.\<close>

lemma round64_grid:
  assumes "0 < a" "a < pow2 1024" "a = of_int m * pow2 (expo a - 52)"
  shows "round64 a = Num a" "round64 (- a) = Num (- a)"
proof -
  define u where "u = pow2 (expo a - 52)"
  have u: "0 < u" by (simp add: u_def)
  from assms(3) have au: "a = of_int m * u" by (simp add: u_def)
  with u have "a / u = of_int m" by simp
  with au have r: "of_int (roundEven (a / u)) * u = a" by simp
  from assms(1,2) r show "round64 a = Num a"
    by (simp add: round64_def Let_def u_def)
  from assms(1,2) r show "round64 (- a) = Num (- a)"
    by (simp add: round64_def Let_def u_def)
qed

text \<open>Whole numbers up to \<open>2 ^ 53\<close> are not changed.\<close>

lemma round64_of_int:
  assumes "\<bar>n\<bar> \<le> 2 ^ 53"
  shows "round64 (of_int n) = Num (of_int n)"
proof (cases "n = 0")
  case True
  then show ?thesis by (simp add: round64_def)
next
  case False
  define a :: rat where "a = of_int \<bar>n\<bar>"
  from False have a1: "1 \<le> a" by (simp add: a_def)
  from assms have a53: "a \<le> pow2 53"
    unfolding a_def pow2_def
    by (metis of_int_le_iff of_int_numeral of_int_power power_int_numeral)
  have p0: "pow2 0 = 1" by (simp add: pow2_def)
  have "pow2 (- 1022) \<le> pow2 0" by (rule pow2_mono) simp
  with a1 p0 have lo: "pow2 (- 1022) \<le> a" by simp
  have "pow2 53 < pow2 1024" by (simp add: pow2_def)
  with a53 have hi: "a < pow2 1024" by simp
  note el = expo_lower [OF lo] and eu = expo_upper [OF hi]
  from a1 p0 eu have "pow2 0 < pow2 (expo a + 1)" by simp
  then have e0: "0 \<le> expo a" using pow2_less by fastforce
  from el a53 have "pow2 (expo a) \<le> pow2 53" by simp
  then have e53: "expo a \<le> 53" by (rule pow2_le)
  have "\<exists>m. a = of_int m * pow2 (expo a - 52)"
  proof (cases "expo a \<le> 52")
    case True
    then have "pow2 (52 - expo a) = of_int (2 ^ nat (52 - expo a))"
      by (intro pow2_nat) simp
    moreover have "pow2 (52 - expo a) * pow2 (expo a - 52) = 1"
      using pow2_inverse [of "expo a - 52"] by simp
    ultimately have "a = of_int (\<bar>n\<bar> * 2 ^ nat (52 - expo a)) * pow2 (expo a - 52)"
      by (simp add: a_def mult.assoc)
    then show ?thesis by blast
  next
    case False
    with e53 have e: "expo a = 53" by simp
    with el a53 have "a = pow2 53" by simp
    also have "pow2 53 = of_int (2 ^ 52) * pow2 (53 - 52)" by (simp add: pow2_def)
    finally show ?thesis using e by auto
  qed
  then obtain m where m: "a = of_int m * pow2 (expo a - 52)" by blast
  from a1 have "0 < a" by simp
  note g = round64_grid [OF this hi m]
  show ?thesis
  proof (cases "0 < n")
    case True
    then have "of_int n = a" by (simp add: a_def)
    with g(1) show ?thesis by simp
  next
    case False
    with \<open>n \<noteq> 0\<close> have "of_int n = - a" by (simp add: a_def)
    with g(2) show ?thesis by simp
  qed
qed

text \<open>In the middle range the result is a number within half a unit in the last place.\<close>

lemma round64_near:
  assumes "pow2 (- 53) \<le> x" "x \<le> pow2 53"
  shows "\<exists>r. round64 x = Num r \<and> \<bar>r - x\<bar> \<le> x * pow2 (- 53)"
proof -
  from assms(1) have x0: "0 < x" using pow2_pos [of "- 53"] by linarith
  have "pow2 (- 1022) \<le> pow2 (- 53)" by (rule pow2_mono) simp
  with assms(1) have lo: "pow2 (- 1022) \<le> x" by simp
  have "pow2 53 < pow2 1024" by (simp add: pow2_def)
  with assms(2) have hi: "x < pow2 1024" by simp
  define u where "u = pow2 (expo x - 52)"
  define r where "r = of_int (roundEven (x / u)) * u"
  have u: "0 < u" by (simp add: u_def)
  have "u = pow2 (expo x) * pow2 (- 52)" by (simp add: u_def flip: pow2_add)
  with expo_lower [OF lo] have ux: "u \<le> x * pow2 (- 52)" by simp
  have "pow2 (- 52) = 2 * pow2 (- 53)" by (simp add: pow2_def)
  with ux have ux2: "u / 2 \<le> x * pow2 (- 53)" by simp
  have "\<bar>of_int (roundEven (x / u)) - x / u\<bar> \<le> 1 / 2" by (rule roundEven_near)
  then have "\<bar>of_int (roundEven (x / u)) - x / u\<bar> * u \<le> 1 / 2 * u"
    using u by (intro mult_right_mono) simp_all
  moreover have "(of_int (roundEven (x / u)) - x / u) * u = r - x"
    using u by (simp add: r_def left_diff_distrib)
  then have "\<bar>of_int (roundEven (x / u)) - x / u\<bar> * u = \<bar>r - x\<bar>"
    using u by (metis abs_mult abs_of_pos)
  ultimately have near: "\<bar>r - x\<bar> \<le> u / 2" by simp
  with ux2 have err: "\<bar>r - x\<bar> \<le> x * pow2 (- 53)" by simp
  have "x * pow2 (- 53) \<le> pow2 53 * pow2 (- 53)"
    using assms(2) by (intro mult_right_mono) simp_all
  also have "\<dots> = 1" by (simp add: pow2_def)
  finally have "r \<le> pow2 53 + 1" using err assms(2) by linarith
  also have "\<dots> < pow2 1024" by (simp add: pow2_def)
  finally have "\<not> pow2 1024 \<le> r" by simp
  with x0 have "round64 x = Num r"
    by (simp add: round64_def Let_def r_def u_def)
  with err show ?thesis by blast
qed

lemma round64_numeral:
  "(numeral k :: int) \<le> 2 ^ 53 \<Longrightarrow> round64 (numeral k) = Num (numeral k)"
  using round64_of_int [of "numeral k"] by simp

lemma round64_neg_numeral:
  "(numeral k :: int) \<le> 2 ^ 53 \<Longrightarrow> round64 (- numeral k) = Num (- numeral k)"
  using round64_of_int [of "- numeral k"] by simp

lemma round64_0: "round64 0 = Num 0"
  by (simp add: round64_def)

lemma round64_1: "round64 1 = Num 1"
  using round64_of_int [of 1] by simp

lemma round64_of_nat: "n \<le> 2 ^ 53 \<Longrightarrow> round64 (of_nat n) = Num (of_nat n)"
proof -
  assume "n \<le> 2 ^ 53"
  then have "int n \<le> 2 ^ 53"
    by (metis of_nat_le_iff of_nat_numeral of_nat_power)
  then show ?thesis using round64_of_int [of "int n"] by simp
qed

text \<open>
  The quotient of two whole numbers below \<open>2 ^ 53\<close> is rounded by less than the distance to
  the next whole number, so the ceiling of the rounded quotient is that of the exact one.
\<close>

lemma jsceil_div:
  fixes q :: nat and p :: int
  assumes q: "q < 2 ^ 53" and p1: "1 \<le> p" and p53: "p \<le> 2 ^ 53"
  shows "jsceil (round64 (of_nat q / of_int p)) = Num (of_int \<lceil>(of_nat q :: rat) / of_int p\<rceil>)"
proof -
  define P :: rat where "P = of_int p"
  define x :: rat where "x = of_nat q / P"
  define n where "n = \<lfloor>x\<rfloor>"
  from p1 have P1: "1 \<le> P" by (simp add: P_def)
  then have P0: "0 < P" by simp
  have x0: "0 \<le> x" using P0 by (simp add: x_def)
  then have n0: "0 \<le> n" by (simp add: n_def)
  have xq: "x \<le> of_nat q"
  proof -
    have "of_nat q / P \<le> of_nat q / 1" using P1 by (intro divide_left_mono) simp_all
    then show ?thesis by (simp add: x_def)
  qed
  have q53: "(of_nat q :: rat) < 2 ^ 53"
    using q by (metis of_nat_less_iff of_nat_numeral of_nat_power)
  have nx: "of_int n \<le> x" "x < of_int n + 1" by (simp_all add: n_def) linarith
  show ?thesis
  proof (cases "x = of_int n")
    case True
    from nx(1) xq q53 have "(of_int n :: rat) < 2 ^ 53" by linarith
    then have "n < 2 ^ 53" by (metis of_int_less_iff of_int_numeral of_int_power)
    with n0 have "\<bar>n\<bar> \<le> 2 ^ 53" by simp
    then have "round64 (of_int n) = Num (of_int n)" by (rule round64_of_int)
    with True show ?thesis by (simp add: x_def P_def)
  next
    case False
    with nx(1) have gt: "of_int n < x" by simp
    have xP: "x * P = of_nat q" using P0 by (simp add: x_def)
    have nP: "of_int n * P = of_int (n * p)" "(of_int n + 1) * P = of_int ((n + 1) * p)"
      by (simp_all add: P_def)
    have qi: "(of_nat q :: rat) = of_int (int q)" by simp
    from gt P0 have "of_int n * P < x * P" by (intro mult_strict_right_mono)
    then have "(of_int (n * p) :: rat) < of_int (int q)" by (simp only: xP nP qi)
    then have "n * p < int q" by (simp only: of_int_less_iff)
    then have "n * p + 1 \<le> int q" by simp
    then have "(of_int (n * p + 1) :: rat) \<le> of_int (int q)" by (simp only: of_int_le_iff)
    then have "of_int (n * p) + 1 \<le> (of_int (int q) :: rat)" by simp
    then have "of_int n * P + 1 \<le> x * P" by (simp only: xP nP qi)
    then have lo: "of_int n + 1 / P \<le> x" using P0 by (simp add: field_simps)
    from nx(2) P0 have "x * P < (of_int n + 1) * P" by (intro mult_strict_right_mono)
    then have "(of_int (int q) :: rat) < of_int ((n + 1) * p)" by (simp only: xP nP qi)
    then have "int q < (n + 1) * p" by (simp only: of_int_less_iff)
    then have "int q + 1 \<le> (n + 1) * p" by simp
    then have "(of_int (int q + 1) :: rat) \<le> of_int ((n + 1) * p)" by (simp only: of_int_le_iff)
    then have "(of_int (int q) :: rat) + 1 \<le> of_int ((n + 1) * p)" by simp
    then have "x * P + 1 \<le> (of_int n + 1) * P" by (simp only: xP nP qi)
    then have hi: "x + 1 / P \<le> of_int n + 1" using P0 by (simp add: field_simps)
    have p53': "P \<le> 2 ^ 53"
      using p53 unfolding P_def by (metis of_int_le_iff of_int_numeral of_int_power)
    have pw: "pow2 53 = 2 ^ 53" "pow2 (- 53) = 1 / 2 ^ 53"
      by (simp_all add: pow2_def power_int_minus_divide)
    have "(0::rat) \<le> of_int n" using n0 by simp
    with lo have "1 / P \<le> x" by linarith
    moreover have "1 / 2 ^ 53 \<le> 1 / P" using p53' P0 by (intro divide_left_mono) simp_all
    ultimately have r1: "pow2 (- 53) \<le> x" by (simp add: pw)
    from xq q53 have r2: "x \<le> pow2 53" by (simp add: pw)
    from round64_near [OF r1 r2] obtain r where
      r: "round64 x = Num r" and err: "\<bar>r - x\<bar> \<le> x * pow2 (- 53)" by blast
    have "x * P < 2 ^ 53" using xP q53 by simp
    then have "x < 2 ^ 53 / P" using P0 by (simp add: field_simps)
    then have "x * pow2 (- 53) < 1 / P" by (simp add: pw field_simps)
    with err have "\<bar>r - x\<bar> < 1 / P" by simp
    with lo hi have "of_int n < r" "r < of_int n + 1" by linarith+
    then have cr: "\<lceil>r\<rceil> = n + 1" by (intro ceiling_unique) simp_all
    from gt nx(2) have cx: "\<lceil>x\<rceil> = n + 1" by (intro ceiling_unique) simp_all
    from r cr cx show ?thesis by (simp add: x_def P_def)
  qed
qed

lemma expo_small: "a < pow2 (- 1022) \<Longrightarrow> expo a = - 1022"
  unfolding expo_def
proof (rule Max_eqI)
  assume a: "a < pow2 (- 1022)"
  show "finite (insert (- 1022) {e \<in> {- 1022 .. 1023}. pow2 e \<le> a})" by (rule expo_finite)
  show "- 1022 \<in> insert (- 1022) {e \<in> {- 1022 .. 1023}. pow2 e \<le> a}" by simp
  fix y assume "y \<in> insert (- 1022) {e \<in> {- 1022 .. 1023}. pow2 e \<le> a}"
  then have "y = - 1022 \<or> (- 1022 \<le> y \<and> pow2 y \<le> a)" by auto
  then show "y \<le> - 1022"
  proof
    assume "y = - 1022" then show ?thesis by simp
  next
    assume y: "- 1022 \<le> y \<and> pow2 y \<le> a"
    then have "pow2 (- 1022) \<le> pow2 y" by (intro pow2_mono) simp
    with y a show ?thesis by simp
  qed
qed

lemma expo_huge: "pow2 1023 \<le> a \<Longrightarrow> expo a = 1023"
  unfolding expo_def
proof (rule Max_eqI)
  assume a: "pow2 1023 \<le> a"
  show "finite (insert (- 1022) {e \<in> {- 1022 .. 1023}. pow2 e \<le> a})" by (rule expo_finite)
  from a show "1023 \<in> insert (- 1022) {e \<in> {- 1022 .. 1023}. pow2 e \<le> a}" by simp
  fix y assume "y \<in> insert (- 1022) {e \<in> {- 1022 .. 1023}. pow2 e \<le> a}"
  then show "y \<le> 1023" by auto
qed

lemma roundEven_bounds: "\<lfloor>q\<rfloor> \<le> roundEven q \<and> roundEven q \<le> \<lceil>q\<rceil>"
proof -
  have "of_int \<lfloor>q\<rfloor> \<le> q" "q < of_int \<lfloor>q\<rfloor> + 1" by linarith+
  have c: "q \<noteq> of_int \<lfloor>q\<rfloor> \<Longrightarrow> \<lceil>q\<rceil> = \<lfloor>q\<rfloor> + 1"
    by (metis ceiling_altdef of_int_floor_cancel)
  have f: "\<lfloor>q\<rfloor> \<le> \<lceil>q\<rceil>" by (rule floor_le_ceiling)
  show ?thesis
    using c f by (auto simp: roundEven_def Let_def)
qed

lemma roundEven_ge: "of_int k \<le> q \<Longrightarrow> k \<le> roundEven q"
  using roundEven_bounds [of q] by (meson le_floor_iff order_trans)

lemma roundEven_le: "q \<le> of_int k \<Longrightarrow> roundEven q \<le> k"
  using roundEven_bounds [of q] by (meson ceiling_le_iff order_trans)

lemma pow2_shift: "pow2 a * pow2 (e - b) = pow2 (e + (a - b))"
proof -
  have "a + (e - b) = e + (a - b)" by simp
  then show ?thesis by (simp only: pow2_add [symmetric])
qed

lemma pow2_52_shift: "pow2 52 * pow2 (e - 52) = pow2 e"
  using pow2_shift [of 52 e 52] by simp

lemma pow2_53_shift: "pow2 53 * pow2 (e - 52) = pow2 (e + 1)"
  using pow2_shift [of 53 e 52] by simp

text \<open>A number on the grid of an exponent in range is a binary64 number.\<close>

lemma grid_fixed:
  assumes e: "- 1022 \<le> e" "e \<le> 1023"
    and m: "0 \<le> m" "m \<le> 2 ^ 53" "2 ^ 52 \<le> m \<or> e = - 1022"
    and r: "r = of_int m * pow2 (e - 52)" "r < pow2 1024"
  shows "round64 r = Num r \<and> round64 (- r) = Num (- r)"
proof (cases "m = 0")
  case True
  with r(1) show ?thesis by (simp add: round64_def)
next
  case False
  with m(1) have mpos: "0 < m" by simp
  then have rpos: "0 < r" by (simp add: r(1))
  have split: "pow2 e = pow2 52 * pow2 (e - 52)"
    by (simp only: pow2_52_shift)
  have p52: "pow2 52 = of_int (2 ^ 52)" and p53: "pow2 53 = of_int (2 ^ 53)"
    by (simp_all add: pow2_def)
  have "\<exists>m'. r = of_int m' * pow2 (expo r - 52)"
  proof (cases "m = 2 ^ 53")
    case True
    then have "r = pow2 53 * pow2 (e - 52)" by (simp add: r(1) p53)
    then have re: "r = pow2 (e + 1)" by (simp only: pow2_53_shift)
    with r(2) have "e + 1 < 1024" by (intro pow2_less) simp
    moreover have "r < pow2 (e + 1 + 1)" unfolding re by (rule pow2_strict) simp
    ultimately have "expo r = e + 1" using e re by (intro expo_unique) simp_all
    moreover have "r = of_int (2 ^ 52) * pow2 (e + 1 - 52)"
      unfolding re p52 [symmetric] by (simp only: pow2_52_shift)
    ultimately show ?thesis by metis
  next
    case nt: False
    show ?thesis
    proof (cases "2 ^ 52 \<le> m")
      case True
      then have "(of_int (2 ^ 52) :: rat) \<le> of_int m" by (simp only: of_int_le_iff)
      then have "pow2 52 * pow2 (e - 52) \<le> of_int m * pow2 (e - 52)"
        unfolding p52 by (intro mult_right_mono) simp_all
      then have lo: "pow2 e \<le> r" by (simp only: r(1) split)
      from nt m(2) have "m < 2 ^ 53" by simp
      then have "(of_int m :: rat) < of_int (2 ^ 53)" by (simp only: of_int_less_iff)
      then have "of_int m * pow2 (e - 52) < pow2 53 * pow2 (e - 52)"
        unfolding p53 by (intro mult_strict_right_mono) simp_all
      moreover have "pow2 53 * pow2 (e - 52) = pow2 (e + 1)" by (rule pow2_53_shift)
      ultimately have hi: "r < pow2 (e + 1)" by (simp only: r(1))
      from e lo hi have "expo r = e" by (intro expo_unique)
      with r(1) show ?thesis by metis
    next
      case False
      with m(3) have e1: "e = - 1022" by simp
      from False have "m < 2 ^ 52" by simp
      then have "(of_int m :: rat) < of_int (2 ^ 52)" by (simp only: of_int_less_iff)
      then have "of_int m * pow2 (e - 52) < pow2 52 * pow2 (e - 52)"
        unfolding p52 by (intro mult_strict_right_mono) simp_all
      then have "r < pow2 e" by (simp only: r(1) split)
      with e1 have "expo r = - 1022" by (intro expo_small) simp
      with r(1) e1 show ?thesis by metis
    qed
  qed
  then obtain m' where "r = of_int m' * pow2 (expo r - 52)" by blast
  from round64_grid [OF rpos r(2) this] show ?thesis by simp
qed

lemma round64_pos:
  assumes "0 < a"
  shows "round64 a =
     (if pow2 1024 \<le> of_int (roundEven (a / pow2 (expo a - 52))) * pow2 (expo a - 52) then PInf
      else Num (of_int (roundEven (a / pow2 (expo a - 52))) * pow2 (expo a - 52)))"
    and "round64 (- a) =
     (if pow2 1024 \<le> of_int (roundEven (a / pow2 (expo a - 52))) * pow2 (expo a - 52) then NInf
      else Num (- (of_int (roundEven (a / pow2 (expo a - 52))) * pow2 (expo a - 52))))"
  using assms by (simp_all add: round64_def Let_def)

text \<open>What rounding returns as a number lies on the grid of an exponent in range.\<close>

lemma round64_grid_form:
  assumes a: "0 < a"
    and nov: "\<not> pow2 1024 \<le> of_int (roundEven (a / pow2 (expo a - 52))) * pow2 (expo a - 52)"
  shows "- 1022 \<le> expo a \<and> expo a \<le> 1023 \<and> 0 \<le> roundEven (a / pow2 (expo a - 52)) \<and>
         roundEven (a / pow2 (expo a - 52)) \<le> 2 ^ 53 \<and>
         (2 ^ 52 \<le> roundEven (a / pow2 (expo a - 52)) \<or> expo a = - 1022)"
proof -
  define e where "e = expo a"
  define u where "u = pow2 (e - 52)"
  define m where "m = roundEven (a / u)"
  have u: "0 < u" by (simp add: u_def)
  have p52: "pow2 52 = of_int (2 ^ 52)" and p53: "pow2 53 = of_int (2 ^ 53)"
    by (simp_all add: pow2_def)
  have u52: "pow2 52 * u = pow2 e" and u53: "pow2 53 * u = pow2 (e + 1)"
    unfolding u_def by (rule pow2_52_shift, rule pow2_53_shift)
  from nov have nov': "of_int m * u < pow2 1024" by (simp add: m_def u_def e_def)
  have er: "- 1022 \<le> e" "e \<le> 1023" using expo_range [of a] by (simp_all add: e_def)
  have m0: "0 \<le> m"
    unfolding m_def using a u by (intro roundEven_ge) simp
  have small: "a < pow2 1024"
  proof (rule ccontr)
    assume "\<not> a < pow2 1024"
    then have big: "pow2 1024 \<le> a" by simp
    have "pow2 1023 \<le> pow2 1024" by (rule pow2_mono) simp
    with big have "pow2 1023 \<le> a" by simp
    then have e1: "e = 1023" unfolding e_def by (rule expo_huge)
    with u53 have "pow2 53 * u = pow2 1024" by simp
    with big u have "pow2 53 \<le> a / u" by (simp add: field_simps)
    then have "2 ^ 53 \<le> m" unfolding m_def p53 by (rule roundEven_ge)
    then have "(of_int (2 ^ 53) :: rat) \<le> of_int m" by (simp only: of_int_le_iff)
    then have "pow2 53 * u \<le> of_int m * u"
      unfolding p53 using u by (intro mult_right_mono) simp_all
    with \<open>pow2 53 * u = pow2 1024\<close> nov' show False by simp
  qed
  from expo_upper [OF small] have "a < pow2 53 * u" by (simp add: u53 e_def)
  with u have "a / u \<le> pow2 53" by (simp add: field_simps)
  then have m53: "m \<le> 2 ^ 53" unfolding m_def p53 by (rule roundEven_le)
  have "2 ^ 52 \<le> m \<or> e = - 1022"
  proof (cases "a < pow2 (- 1022)")
    case True
    then show ?thesis unfolding e_def by (simp add: expo_small)
  next
    case False
    then have "pow2 (- 1022) \<le> a" by simp
    from expo_lower [OF this] have "pow2 52 * u \<le> a" by (simp add: u52 e_def)
    with u have "pow2 52 \<le> a / u" by (simp add: field_simps)
    then have "2 ^ 52 \<le> m" unfolding m_def p52 by (rule roundEven_ge)
    then show ?thesis by simp
  qed
  with er m0 m53 show ?thesis by (simp add: m_def u_def e_def)
qed

lemma round64_idem: "round64 x = Num r \<Longrightarrow> round64 r = Num r"
proof -
  assume h: "round64 x = Num r"
  consider "x = 0" | "0 < x" | "x < 0" by linarith
  then show ?thesis
  proof cases
    case 1
    with h show ?thesis by (simp add: round64_def)
  next
    case 2
    let ?g = "of_int (roundEven (x / pow2 (expo x - 52))) * pow2 (expo x - 52)"
    from h round64_pos(1) [OF 2] have nov: "\<not> pow2 1024 \<le> ?g" and r: "r = ?g"
      by (auto split: if_splits)
    from round64_grid_form [OF 2 nov] nov r
    have "round64 r = Num r \<and> round64 (- r) = Num (- r)"
      by (intro grid_fixed [of "expo x" "roundEven (x / pow2 (expo x - 52))"]) simp_all
    then show ?thesis by simp
  next
    case 3
    define a where "a = - x"
    from 3 have a: "0 < a" and xa: "x = - a" by (simp_all add: a_def)
    let ?g = "of_int (roundEven (a / pow2 (expo a - 52))) * pow2 (expo a - 52)"
    from h round64_pos(2) [OF a] have nov: "\<not> pow2 1024 \<le> ?g" and r: "r = - ?g"
      by (auto simp: xa split: if_splits)
    from round64_grid_form [OF a nov] nov
    have "round64 ?g = Num ?g \<and> round64 (- ?g) = Num (- ?g)"
      by (intro grid_fixed [of "expo a" "roundEven (a / pow2 (expo a - 52))"]) simp_all
    with r show ?thesis by simp
  qed
qed

lemma round64_Num_form:
  assumes "round64 x = Num r"
  shows "\<exists>m e. 0 \<le> m \<and> m \<le> 2 ^ 53 \<and> \<bar>r\<bar> = of_int m * pow2 (e - 52)"
proof -
  consider "x = 0" | "0 < x" | "x < 0" by linarith
  then show ?thesis
  proof cases
    case 1
    with assms have "r = 0" by (simp add: round64_def)
    then have "0 \<le> (0::int) \<and> (0::int) \<le> 2 ^ 53 \<and> \<bar>r\<bar> = of_int 0 * pow2 (0 - 52)" by simp
    then show ?thesis by blast
  next
    case 2
    let ?m = "roundEven (x / pow2 (expo x - 52))"
    let ?g = "of_int ?m * pow2 (expo x - 52)"
    from assms round64_pos(1) [OF 2] have nov: "\<not> pow2 1024 \<le> ?g" and r: "r = ?g"
      by (auto split: if_splits)
    from round64_grid_form [OF 2 nov] have m: "0 \<le> ?m" "?m \<le> 2 ^ 53" by simp_all
    then have "0 \<le> ?g" by simp
    with r have "\<bar>r\<bar> = ?g" by simp
    with m show ?thesis by blast
  next
    case 3
    define a where "a = - x"
    from 3 have a: "0 < a" and xa: "x = - a" by (simp_all add: a_def)
    let ?m = "roundEven (a / pow2 (expo a - 52))"
    let ?g = "of_int ?m * pow2 (expo a - 52)"
    from assms round64_pos(2) [OF a] have nov: "\<not> pow2 1024 \<le> ?g" and r: "r = - ?g"
      by (auto simp: xa split: if_splits)
    from round64_grid_form [OF a nov] have m: "0 \<le> ?m" "?m \<le> 2 ^ 53" by simp_all
    then have "0 \<le> ?g" by simp
    with r have "\<bar>r\<bar> = ?g" by simp
    with m show ?thesis by blast
  qed
qed

lemma abs_ceiling_le:
  fixes r :: rat
  assumes "\<bar>r\<bar> \<le> of_int B"
  shows "\<bar>\<lceil>r\<rceil>\<bar> \<le> B"
proof -
  from assms have "r \<le> of_int B" by simp
  then have up: "\<lceil>r\<rceil> \<le> B" by (rule ceiling_le)
  from assms have "of_int (- B) \<le> r" by simp
  also have "r \<le> of_int \<lceil>r\<rceil>" by (rule le_of_int_ceiling)
  finally have "- B \<le> \<lceil>r\<rceil>" by (simp only: of_int_le_iff)
  with up show ?thesis by simp
qed

text \<open>The ceiling of a binary64 number is a binary64 number.\<close>

lemma round64_ceiling:
  assumes "round64 x = Num r"
  shows "round64 (of_int \<lceil>r\<rceil>) = Num (of_int \<lceil>r\<rceil>)"
proof (cases "\<bar>r\<bar> \<le> 2 ^ 53")
  case True
  then have "\<bar>r\<bar> \<le> of_int (2 ^ 53)" by simp
  then have "\<bar>\<lceil>r\<rceil>\<bar> \<le> 2 ^ 53" by (rule abs_ceiling_le)
  then show ?thesis by (rule round64_of_int)
next
  case False
  define B :: rat where "B = 2 ^ 53"
  have B0: "0 < B" by (simp add: B_def)
  from False have big: "B < \<bar>r\<bar>" by (simp add: B_def)
  from round64_Num_form [OF assms] obtain m e where
    m: "0 \<le> m" "m \<le> 2 ^ 53" and r: "\<bar>r\<bar> = of_int m * pow2 (e - 52)" by blast
  define U where "U = pow2 (e - 52)"
  have U0: "0 \<le> U" by (simp add: U_def)
  from m(2) have "(of_int m :: rat) \<le> B"
    unfolding B_def by (metis of_int_le_iff of_int_numeral of_int_power)
  with U0 have "of_int m * U \<le> B * U" by (intro mult_right_mono)
  moreover from r have "\<bar>r\<bar> = of_int m * U" by (simp only: U_def)
  ultimately have "B * 1 < B * U" using big by linarith
  with B0 have "1 < U" by (simp only: mult_less_cancel_left_pos)
  then have "pow2 0 < pow2 (e - 52)" by (simp add: pow2_def U_def)
  then have "0 < e - 52" by (rule pow2_less)
  then have "pow2 (e - 52) = of_int (2 ^ nat (e - 52))" by (intro pow2_nat) simp
  with r have "\<bar>r\<bar> = of_int (m * 2 ^ nat (e - 52))" by simp
  then have "\<exists>k. r = of_int k"
    by (metis abs_minus_cancel abs_of_nonneg abs_of_nonpos equation_minus_iff linear of_int_minus)
  then obtain k where k: "r = of_int k" by blast
  then have c: "\<lceil>r\<rceil> = k" by simp
  from round64_idem [OF assms] k have "round64 (of_int k) = Num (of_int k)" by simp
  with c show ?thesis by simp
qed

subsection \<open>Rounding at single numbers\<close>

lemma round64_eval:
  assumes "0 < a" "- 1022 \<le> e" "e \<le> 1023" "pow2 e \<le> a" "a < pow2 (e + 1)"
    and "roundEven (a / pow2 (e - 52)) = m" "of_int m * pow2 (e - 52) < pow2 1024"
  shows "round64 a = Num (of_int m * pow2 (e - 52))"
proof -
  from assms(2-5) have "expo a = e" by (rule expo_unique)
  with assms(6,7) round64_pos(1) [OF assms(1)] show ?thesis by simp
qed

text \<open>The quotient of \<open>10 ^ 20\<close> and 3 is rounded to a multiple of 4096.\<close>

lemma round64_example_quotient:
  "round64 (100000000000000000000 / 3) = Num 33333333333333331968"
proof -
  let ?a = "100000000000000000000 / 3 :: rat"
  have u: "pow2 (64 - 52) = 4096" by (simp add: pow2_def)
  have f: "\<lfloor>?a / 4096\<rfloor> = 8138020833333333"
    by (rule floor_unique) simp_all
  have m: "roundEven (?a / pow2 (64 - 52)) = 8138020833333333"
    unfolding u roundEven_def Let_def f by simp
  have "round64 ?a = Num (of_int 8138020833333333 * pow2 (64 - 52))"
    by (rule round64_eval [OF _ _ _ _ _ m]) (simp_all add: pow2_def)
  then show ?thesis unfolding u by simp
qed

text \<open>
  With \<open>0.1\<close> as a binary64 number, three times it is a tie between two binary64 numbers,
  and the even one is taken.
\<close>

lemma round64_example_product:
  "round64 (3 * (3602879701896397 / 2 ^ 55)) = Num (5404319552844596 / 2 ^ 54)"
proof -
  let ?a = "3 * (3602879701896397 / 2 ^ 55) :: rat"
  have u: "pow2 (- 2 - 52) = 1 / 2 ^ 54" by (simp add: pow2_def power_int_minus_divide)
  have f: "\<lfloor>?a / (1 / 2 ^ 54)\<rfloor> = 5404319552844595"
    by (rule floor_unique) simp_all
  have m: "roundEven (?a / pow2 (- 2 - 52)) = 5404319552844596"
    unfolding u roundEven_def Let_def f by simp
  have "round64 ?a = Num (of_int 5404319552844596 * pow2 (- 2 - 52))"
    by (rule round64_eval [OF _ _ _ _ _ m]) (simp_all add: pow2_def power_int_minus_divide)
  then show ?thesis unfolding u by simp
qed

text \<open>With \<open>2.3\<close> as a binary64 number, 69 pieces at 2.3 per box give 31 boxes.\<close>

lemma jsceil_example_quotient:
  "jsceil (round64 (69 / (5179139571476070 / 2 ^ 51))) = Num 31"
proof -
  let ?a = "69 / (5179139571476070 / 2 ^ 51) :: rat"
  have u: "pow2 (4 - 52) = 1 / 2 ^ 48" by (simp add: pow2_def power_int_minus_divide)
  have f: "\<lfloor>?a / (1 / 2 ^ 48)\<rfloor> = 8444249301319680"
    by (rule floor_unique) simp_all
  have m: "roundEven (?a / pow2 (4 - 52)) = 8444249301319681"
    unfolding u roundEven_def Let_def f by simp
  have "round64 ?a = Num (of_int 8444249301319681 * pow2 (4 - 52))"
    by (rule round64_eval [OF _ _ _ _ _ m]) (simp_all add: pow2_def power_int_minus_divide)
  then have r: "round64 ?a = Num (8444249301319681 / 2 ^ 48)" unfolding u by simp
  have "\<lceil>8444249301319681 / 2 ^ 48 :: rat\<rceil> = 31"
    by (rule ceiling_unique) simp_all
  with r show ?thesis by (simp only: jsceil.simps) simp
qed

text \<open>\<open>2 ^ 53 + 1\<close> is a tie between \<open>2 ^ 53\<close> and \<open>2 ^ 53 + 2\<close>; the even one is taken.\<close>

lemma round64_example_sum:
  "round64 9007199254740993 = Num 9007199254740992"
proof -
  let ?a = "9007199254740993 :: rat"
  have u: "pow2 (53 - 52) = 2" by (simp add: pow2_def)
  have f: "\<lfloor>?a / 2\<rfloor> = 4503599627370496"
    by (rule floor_unique) simp_all
  have m: "roundEven (?a / pow2 (53 - 52)) = 4503599627370496"
    unfolding u roundEven_def Let_def f by simp
  have "round64 ?a = Num (of_int 4503599627370496 * pow2 (53 - 52))"
    by (rule round64_eval [OF _ _ _ _ _ m]) (simp_all add: pow2_def)
  then show ?thesis unfolding u by simp
qed

section \<open>Box count and weight of one line item\<close>

lemma orDefault_nonzero: "d \<noteq> 0 \<Longrightarrow> orDefault v d \<noteq> 0"
  by (simp add: orDefault_def split: option.splits)

lemma jsmul_Num_right:
  "w \<noteq> 0 \<Longrightarrow> jsmul x (Num w) =
     (case x of Num b \<Rightarrow> round64 (b * w)
      | PInf \<Rightarrow> if 0 < w then PInf else NInf
      | NInf \<Rightarrow> if 0 < w then NInf else PInf
      | NaN \<Rightarrow> NaN)"
  by (cases x) auto

lemma jsceil_cases: "jsceil x = (case x of Num r \<Rightarrow> Num (of_int \<lceil>r\<rceil>) | v \<Rightarrow> v)"
  by (cases x) simp_all

lemma ceiling_100_48: "\<lceil>(100::rat) / 48\<rceil> = 3"
  by (rule ceiling_unique) simp_all

lemma ceiling_120_50: "\<lceil>(120::rat) / 50\<rceil> = 3"
  by (rule ceiling_unique) simp_all

lemma enrich_fields:
  "num_boxes (enrich str config item) =
     jsceil (jsdiv (toNumber (quantity item))
       (orDefault (pieces_per_box config) (pieces_per_box defaultBoxConfig)))"
  "total_weight (enrich str config item) =
     jsmul (num_boxes (enrich str config item))
       (Num (orDefault (box_weight_kg config) (box_weight_kg defaultBoxConfig)))"
  "item_pieces_per_box (enrich str config item) =
     orDefault (pieces_per_box config) (pieces_per_box defaultBoxConfig)"
  "item_box_weight_kg (enrich str config item) =
     orDefault (box_weight_kg config) (box_weight_kg defaultBoxConfig)"
  "quantity (enrich str config item) = quantity item"
  "taxable_value (enrich str config item) = taxable_value item"
  by (simp_all add: enrich_def Let_def)

text \<open>Box counts and a weight where the exact quotient or product is no binary64 number.\<close>

lemma enrich_rounded_quotient:
  "num_boxes (enrich str (config\<lparr>pieces_per_box := Some 3\<rparr>)
     (item\<lparr>quantity := Present 100000000000000000000\<rparr>)) = Num 33333333333333331968"
  using round64_example_quotient by (simp add: enrich_fields orDefault_def)

lemma enrich_rounded_ceiling:
  "num_boxes (enrich str (config\<lparr>pieces_per_box := Some (5179139571476070 / 2 ^ 51)\<rparr>)
     (item\<lparr>quantity := Present 69\<rparr>)) = Num 31"
  using jsceil_example_quotient by (simp add: enrich_fields orDefault_def)

lemma enrich_rounded_product:
  "total_weight (enrich str
     (config\<lparr>pieces_per_box := Some 1, box_weight_kg := Some (3602879701896397 / 2 ^ 55)\<rparr>)
     (item\<lparr>quantity := Present 3\<rparr>)) = Num (5404319552844596 / 2 ^ 54)"
  using round64_example_product by (simp add: enrich_fields orDefault_def round64_numeral)

text \<open>
  C1: for a quantity that is a natural number, the number of boxes is the ceiling of the
  quotient of the quantity and the resolved pieces per box, and the total weight is the
  product of the number of boxes and the resolved box weight, quotient and product being
  those of the language, on binary64 numbers. When quantity and pieces per box are whole
  numbers below \<open>2 ^ 53\<close> the number of boxes is the ceiling of the exact quotient, and with
  a whole box weight and a product up to \<open>2 ^ 53\<close> the total weight is the exact product.
  The quantity 0 gives 0 boxes and weight 0, and 100 pieces at 48 per box give 3 boxes.
  Outside that range the rounded quotient and product are what the code returns:
  \<open>10 ^ 20\<close> pieces at 3 per box give 33333333333333331968 boxes, 69 pieces at 2.3 per box
  give 31 boxes, and 3 boxes of 0.1 kg weigh 0.30000000000000004 kg (2.3 and 0.1 being the
  binary64 numbers of these literals).
\<close>

theorem rollup_boxes_weight:
  fixes q :: nat and item :: "'p line_item"
  shows
  "num_boxes (enrich str config (item\<lparr>quantity := Present (of_nat q)\<rparr>)) =
     (case round64 (of_nat q / orDefault (pieces_per_box config) (pieces_per_box defaultBoxConfig)) of
        Num r \<Rightarrow> Num (of_int \<lceil>r\<rceil>) | v \<Rightarrow> v) \<and>
   total_weight (enrich str config (item\<lparr>quantity := Present (of_nat q)\<rparr>)) =
     (case num_boxes (enrich str config (item\<lparr>quantity := Present (of_nat q)\<rparr>)) of
        Num b \<Rightarrow> round64 (b * orDefault (box_weight_kg config) (box_weight_kg defaultBoxConfig))
      | PInf \<Rightarrow>
          if 0 < orDefault (box_weight_kg config) (box_weight_kg defaultBoxConfig) then PInf else NInf
      | NInf \<Rightarrow>
          if 0 < orDefault (box_weight_kg config) (box_weight_kg defaultBoxConfig) then NInf else PInf
      | NaN \<Rightarrow> NaN) \<and>
   (\<forall>p. orDefault (pieces_per_box config) (pieces_per_box defaultBoxConfig) = of_int p \<and>
        1 \<le> p \<and> p \<le> 2 ^ 53 \<and> q < 2 ^ 53 \<longrightarrow>
      num_boxes (enrich str config (item\<lparr>quantity := Present (of_nat q)\<rparr>)) =
        Num (of_int \<lceil>(of_nat q :: rat) / of_int p\<rceil>) \<and>
      (\<forall>w. orDefault (box_weight_kg config) (box_weight_kg defaultBoxConfig) = of_int w \<and>
           \<bar>\<lceil>(of_nat q :: rat) / of_int p\<rceil> * w\<bar> \<le> 2 ^ 53 \<longrightarrow>
         total_weight (enrich str config (item\<lparr>quantity := Present (of_nat q)\<rparr>)) =
           Num (of_int (\<lceil>(of_nat q :: rat) / of_int p\<rceil> * w)))) \<and>
   num_boxes (enrich str config (item\<lparr>quantity := Present 0\<rparr>)) = Num 0 \<and>
   total_weight (enrich str config (item\<lparr>quantity := Present 0\<rparr>)) = Num 0 \<and>
   num_boxes (enrich str (config\<lparr>pieces_per_box := Some 48\<rparr>) (item\<lparr>quantity := Present 100\<rparr>)) = Num 3 \<and>
   num_boxes (enrich str (config\<lparr>pieces_per_box := Some 3\<rparr>)
     (item\<lparr>quantity := Present 100000000000000000000\<rparr>)) = Num 33333333333333331968 \<and>
   num_boxes (enrich str (config\<lparr>pieces_per_box := Some (5179139571476070 / 2 ^ 51)\<rparr>)
     (item\<lparr>quantity := Present 69\<rparr>)) = Num 31 \<and>
   total_weight (enrich str
     (config\<lparr>pieces_per_box := Some 1, box_weight_kg := Some (3602879701896397 / 2 ^ 55)\<rparr>)
     (item\<lparr>quantity := Present 3\<rparr>)) = Num (5404319552844596 / 2 ^ 54)"
proof (intro conjI allI impI)
  let ?P = "orDefault (pieces_per_box config) (pieces_per_box defaultBoxConfig)"
  let ?W = "orDefault (box_weight_kg config) (box_weight_kg defaultBoxConfig)"
  let ?e = "enrich str config (item\<lparr>quantity := Present (of_nat q)\<rparr>)"
  have W: "?W \<noteq> 0" by (rule orDefault_nonzero) (simp add: defaultBoxConfig_def)
  show "num_boxes ?e = (case round64 (of_nat q / ?P) of Num r \<Rightarrow> Num (of_int \<lceil>r\<rceil>) | v \<Rightarrow> v)"
    by (simp add: enrich_fields jsceil_cases)
  show "total_weight ?e =
     (case num_boxes ?e of Num b \<Rightarrow> round64 (b * ?W)
      | PInf \<Rightarrow> if 0 < ?W then PInf else NInf
      | NInf \<Rightarrow> if 0 < ?W then NInf else PInf
      | NaN \<Rightarrow> NaN)"
    by (simp only: enrich_fields(2) jsmul_Num_right [OF W])
  {
    fix p :: int
    assume h: "?P = of_int p \<and> 1 \<le> p \<and> p \<le> 2 ^ 53 \<and> q < 2 ^ 53"
    then have nb: "num_boxes ?e = Num (of_int \<lceil>(of_nat q :: rat) / of_int p\<rceil>)"
      using jsceil_div [of q p] by (simp add: enrich_fields)
    then show "num_boxes ?e = Num (of_int \<lceil>(of_nat q :: rat) / of_int p\<rceil>)" .
    fix w :: int
    assume "?W = of_int w \<and> \<bar>\<lceil>(of_nat q :: rat) / of_int p\<rceil> * w\<bar> \<le> 2 ^ 53"
    then have "?W = of_int w" and "round64 (of_int (\<lceil>(of_nat q :: rat) / of_int p\<rceil> * w)) =
        Num (of_int (\<lceil>(of_nat q :: rat) / of_int p\<rceil> * w))"
      by (simp_all only: round64_of_int)
    with nb show "total_weight ?e = Num (of_int (\<lceil>(of_nat q :: rat) / of_int p\<rceil> * w))"
      by (simp add: enrich_fields(2))
  }
  show "num_boxes (enrich str config (item\<lparr>quantity := Present 0\<rparr>)) = Num 0"
    by (simp add: enrich_fields round64_0)
  show "total_weight (enrich str config (item\<lparr>quantity := Present 0\<rparr>)) = Num 0"
    by (simp add: enrich_fields round64_0)
  show "num_boxes (enrich str (config\<lparr>pieces_per_box := Some 48\<rparr>) (item\<lparr>quantity := Present 100\<rparr>)) = Num 3"
    using jsceil_div [of 100 48] ceiling_100_48
    by (simp add: enrich_fields orDefault_def)
  show "num_boxes (enrich str (config\<lparr>pieces_per_box := Some 3\<rparr>)
     (item\<lparr>quantity := Present 100000000000000000000\<rparr>)) = Num 33333333333333331968"
    by (rule enrich_rounded_quotient)
  show "num_boxes (enrich str (config\<lparr>pieces_per_box := Some (5179139571476070 / 2 ^ 51)\<rparr>)
     (item\<lparr>quantity := Present 69\<rparr>)) = Num 31"
    by (rule enrich_rounded_ceiling)
  show "total_weight (enrich str
     (config\<lparr>pieces_per_box := Some 1, box_weight_kg := Some (3602879701896397 / 2 ^ 55)\<rparr>)
     (item\<lparr>quantity := Present 3\<rparr>)) = Num (5404319552844596 / 2 ^ 54)"
    by (rule enrich_rounded_product)
qed

theorem rollup_boxes_weight_witness:
  "orDefault (pieces_per_box prod001) (pieces_per_box defaultBoxConfig) = of_int 50 \<and>
   (1::int) \<le> 50 \<and> (50::int) \<le> 2 ^ 53 \<and> (120::nat) < 2 ^ 53 \<and>
   orDefault (box_weight_kg prod001) (box_weight_kg defaultBoxConfig) = of_int 4 \<and>
   \<bar>\<lceil>(of_nat 120 :: rat) / of_int 50\<rceil> * 4\<bar> \<le> 2 ^ 53 \<and>
   num_boxes (enrich strNat prod001 (item1\<lparr>quantity := Present (of_nat 120)\<rparr>)) = Num 3 \<and>
   total_weight (enrich strNat prod001 (item1\<lparr>quantity := Present (of_nat 120)\<rparr>)) = Num 12"
proof -
  let ?e = "enrich strNat prod001 (item1\<lparr>quantity := Present (of_nat 120)\<rparr>)"
  have c: "\<lceil>(of_nat 120 :: rat) / of_int 50\<rceil> = 3" using ceiling_120_50 by simp
  have h1: "orDefault (pieces_per_box prod001) (pieces_per_box defaultBoxConfig) = of_int 50 \<and>
      (1::int) \<le> 50 \<and> (50::int) \<le> 2 ^ 53 \<and> (120::nat) < 2 ^ 53"
    by (simp add: prod001_def orDefault_def)
  have h2: "orDefault (box_weight_kg prod001) (box_weight_kg defaultBoxConfig) = of_int 4 \<and>
      \<bar>\<lceil>(of_nat 120 :: rat) / of_int 50\<rceil> * 4\<bar> \<le> 2 ^ 53"
    by (simp only: c) (simp add: prod001_def orDefault_def)
  note t = rollup_boxes_weight [where str = strNat and config = prod001 and item = item1 and q = 120, THEN conjunct2, THEN conjunct2,
      THEN conjunct1, rule_format, OF h1]
  from t have nb: "num_boxes ?e = Num (of_int \<lceil>(of_nat 120 :: rat) / of_int 50\<rceil>)"
    by (rule conjunct1)
  from t [THEN conjunct2, rule_format, OF h2]
  have tw: "total_weight ?e = Num (of_int (\<lceil>(of_nat 120 :: rat) / of_int 50\<rceil> * 4))" .
  from nb have nb3: "num_boxes ?e = Num 3" by (simp only: c) simp
  from tw have tw12: "total_weight ?e = Num 12" by (simp only: c) simp
  from h1 h2 nb3 tw12 show ?thesis by blast
qed

text \<open>
  C2, as the claim states it, fails: a negative number of pieces per box is not replaced by
  the default 48 but used as it is, and 120 pieces then give -24 boxes.
\<close>

theorem negative_pieces_counterexample:
  "pieces_per_box negativeConfig = Some (- 5) \<and>
   item_pieces_per_box (enrich strNat negativeConfig item1) = - 5 \<and>
   item_pieces_per_box (enrich strNat negativeConfig item1) \<noteq> pieces_per_box defaultBoxConfig \<and>
   num_boxes (enrich strNat negativeConfig item1) = Num (- 24)"
  by (simp add: enrich_fields negativeConfig_def item1_def orDefault_def defaultBoxConfig_def
      round64_neg_numeral)

text \<open>
  C2, amended: each of the five numeric fields that is absent, \<^verbatim>\<open>null\<close> or zero is replaced,
  independently of the others, by the default (48, 5, 30, 25, 20); any other value, also a
  negative one, is used as it is; box count and weight are computed from the resolved values.
\<close>

theorem config_fields_resolved:
  fixes item :: "'p line_item"
  shows
  "item_pieces_per_box (enrich str config item) =
     (case pieces_per_box config of None \<Rightarrow> 48 | Some r \<Rightarrow> if r = 0 then 48 else r) \<and>
   item_box_weight_kg (enrich str config item) =
     (case box_weight_kg config of None \<Rightarrow> 5 | Some r \<Rightarrow> if r = 0 then 5 else r) \<and>
   box_dimensions (enrich str config item) =
     str (case box_length_cm config of None \<Rightarrow> 30 | Some r \<Rightarrow> if r = 0 then 30 else r) @ dimSep @
     str (case box_width_cm config of None \<Rightarrow> 25 | Some r \<Rightarrow> if r = 0 then 25 else r) @ dimSep @
     str (case box_height_cm config of None \<Rightarrow> 20 | Some r \<Rightarrow> if r = 0 then 20 else r) \<and>
   num_boxes (enrich str config item) =
     jsceil (jsdiv (toNumber (quantity item)) (item_pieces_per_box (enrich str config item))) \<and>
   total_weight (enrich str config item) =
     jsmul (num_boxes (enrich str config item)) (Num (item_box_weight_kg (enrich str config item)))"
  by (simp add: enrich_def Let_def orDefault_def defaultBoxConfig_def)

theorem config_fields_resolved_witness:
  "item_pieces_per_box (enrich strNat partialConfig item1) = 48 \<and>
   item_box_weight_kg (enrich strNat partialConfig item1) = 5 \<and>
   box_dimensions (enrich strNat partialConfig item1) = js ''40'' @ dimSep @ js ''25'' @ dimSep @ js ''20'' \<and>
   item_pieces_per_box (enrich strNat negativeConfig item1) = - 5 \<and>
   item_box_weight_kg (enrich strNat negativeConfig item1) = 4"
  using config_fields_resolved [of strNat partialConfig item1]
    config_fields_resolved [of strNat negativeConfig item1]
  by (simp add: partialConfig_def negativeConfig_def strNat_def js_def)

section \<open>Reconciling a list of line items\<close>

lemma reconcile_parts:
  "fst (reconcile up str productMaster lineItems) = map (recalculateItem up str productMaster) lineItems"
  "snd (reconcile up str productMaster lineItems) =
     foldl totalsStep \<lparr>t_quantity = Num 0, boxes = Num 0, weight = Num 0, value = Num 0\<rparr>
       (map (recalculateItem up str productMaster) lineItems)"
  by (simp_all add: reconcile_def recalculateItems_def sourceItems_def totals_def Let_def)

lemma totalsStep_sel:
  "t_quantity (totalsStep acc x) = jsadd (t_quantity acc) (toNumber (quantity x))"
  "boxes (totalsStep acc x) = jsadd (boxes acc) (num_boxes x)"
  "weight (totalsStep acc x) = jsadd (weight acc) (total_weight x)"
  "value (totalsStep acc x) = jsadd (value acc) (toNumber (taxable_value x))"
  by (simp_all add: totalsStep_def)

text \<open>The first end-to-end scenario of the specification.\<close>

lemma matchConfig_item1:
  "matchConfig asciiUpper master1 (Present (js ''PROD-001'')) = (prod001, Exact)"
  by (simp add: matchConfig_def lookupKey_def master1_def)

lemma enrich_item1:
  "enrich strNat prod001 item1 =
     \<lparr>sku = Present (js ''PROD-001''), quantity = Present 120, taxable_value = Present 1000,
      passthrough = (), item_pieces_per_box = 50, item_box_weight_kg = 4,
      box_dimensions = js ''30'' @ dimSep @ js ''20'' @ dimSep @ js ''15'',
      num_boxes = Num 3, total_weight = Num 12\<rparr>"
  using jsceil_div [of 120 50] ceiling_120_50
  by (simp add: enrich_def item1_def prod001_def orDefault_def defaultBoxConfig_def strNat_def
      js_def Let_def round64_numeral)

lemma recalculateItem_item1:
  "recalculateItem asciiUpper strNat master1 item1 = enrich strNat prod001 item1"
  unfolding recalculateItem_def
  by (simp only: item1_def line_item.simps matchConfig_item1 fst_conv)

lemma reconcile_item1:
  "reconcile asciiUpper strNat master1 [item1] =
     ([\<lparr>sku = Present (js ''PROD-001''), quantity = Present 120, taxable_value = Present 1000,
        passthrough = (), item_pieces_per_box = 50, item_box_weight_kg = 4,
        box_dimensions = js ''30'' @ dimSep @ js ''20'' @ dimSep @ js ''15'',
        num_boxes = Num 3, total_weight = Num 12\<rparr>],
      \<lparr>t_quantity = Num 120, boxes = Num 3, weight = Num 12, value = Num 1000\<rparr>)"
  by (simp add: prod_eq_iff reconcile_parts recalculateItem_item1 enrich_item1 totalsStep_def
      round64_numeral)

text \<open>
  C9: reconciliation gives one enriched item for each raw item, in the same order; the i-th
  enriched item is computed from the i-th raw item and the master alone, so that the result
  for a concatenation is the concatenation of the results; cut back to the fields of a raw
  item, an enriched item is its raw item.
\<close>

theorem reconcile_frame:
  fixes lineItems :: "'p line_item list"
  shows
  "length (fst (reconcile up str productMaster lineItems)) = length lineItems \<and>
   (\<forall>i < length lineItems.
      fst (reconcile up str productMaster lineItems) ! i =
        recalculateItem up str productMaster (lineItems ! i) \<and>
      line_item.truncate (fst (reconcile up str productMaster lineItems) ! i) = lineItems ! i) \<and>
   fst (reconcile up str productMaster (lineItems @ rest)) =
     fst (reconcile up str productMaster lineItems) @ fst (reconcile up str productMaster rest)"
  by (simp add: reconcile_parts recalculateItem_def enrich_def line_item.truncate_def Let_def)

theorem reconcile_frame_witness:
  "(1::nat) < length [item1, itemNoSku] \<and>
   length (fst (reconcile asciiUpper strNat master1 [item1, itemNoSku])) = 2 \<and>
   fst (reconcile asciiUpper strNat master1 [item1, itemNoSku]) ! 1 =
     recalculateItem asciiUpper strNat master1 itemNoSku \<and>
   line_item.truncate (fst (reconcile asciiUpper strNat master1 [item1, itemNoSku]) ! 1) = itemNoSku"
proof -
  note t = reconcile_frame [of asciiUpper strNat master1 "[item1, itemNoSku]" "[]"]
  have l: "(1::nat) < length [item1, itemNoSku]" by simp
  have n: "[item1, itemNoSku] ! 1 = itemNoSku" by simp
  have len: "length [item1, itemNoSku] = 2" by simp
  from t have "\<forall>i < length [item1, itemNoSku].
      fst (reconcile asciiUpper strNat master1 [item1, itemNoSku]) ! i =
        recalculateItem asciiUpper strNat master1 ([item1, itemNoSku] ! i) \<and>
      line_item.truncate (fst (reconcile asciiUpper strNat master1 [item1, itemNoSku]) ! i) =
        [item1, itemNoSku] ! i"
    by blast
  with l have a: "fst (reconcile asciiUpper strNat master1 [item1, itemNoSku]) ! 1 =
        recalculateItem asciiUpper strNat master1 ([item1, itemNoSku] ! 1) \<and>
      line_item.truncate (fst (reconcile asciiUpper strNat master1 [item1, itemNoSku]) ! 1) =
        [item1, itemNoSku] ! 1"
    by blast
  from t have b: "length (fst (reconcile asciiUpper strNat master1 [item1, itemNoSku])) =
      length [item1, itemNoSku]"
    by blast
  from l a [unfolded n] b [unfolded len] show ?thesis by blast
qed

section \<open>A SKU that names an inherited property\<close>

lemma ceiling_120_48: "\<lceil>(120::rat) / 48\<rceil> = 3"
  by (rule ceiling_unique) simp_all

lemma recalculateItem_constructor:
  "item_pieces_per_box (recalculateItem asciiUpper strNat masterConstructor itemConstructor) = 48"
  "item_box_weight_kg (recalculateItem asciiUpper strNat masterConstructor itemConstructor) = 5"
  "num_boxes (recalculateItem asciiUpper strNat masterConstructor itemConstructor) = Num 3"
  "total_weight (recalculateItem asciiUpper strNat masterConstructor itemConstructor) = Num 15"
proof -
  have h: "map_of masterConstructor (js ''constructor'') = None"
    by (simp add: masterConstructor_def js_def)
  have m: "matchConfig asciiUpper masterConstructor (sku itemConstructor) = (inheritedMember, Exact)"
    using matchConfig_constructor [OF h, of asciiUpper] by (simp only: itemConstructor_def line_item.simps)
  have r: "recalculateItem asciiUpper strNat masterConstructor itemConstructor =
      enrich strNat inheritedMember itemConstructor"
    by (simp only: recalculateItem_def m fst_conv)
  have q: "quantity itemConstructor = Present (of_nat 120)" by (simp add: itemConstructor_def)
  have p: "orDefault (pieces_per_box inheritedMember) (pieces_per_box defaultBoxConfig) = of_int 48"
    by (simp add: inheritedMember_def orDefault_def defaultBoxConfig_def)
  have w: "orDefault (box_weight_kg inheritedMember) (box_weight_kg defaultBoxConfig) = 5"
    by (simp add: inheritedMember_def orDefault_def defaultBoxConfig_def)
  have n: "num_boxes (enrich strNat inheritedMember itemConstructor) = Num 3"
    using jsceil_div [of 120 48] ceiling_120_48 by (simp add: enrich_fields(1) q p)
  show "item_pieces_per_box (recalculateItem asciiUpper strNat masterConstructor itemConstructor) = 48"
    using p by (simp add: r enrich_fields)
  show "item_box_weight_kg (recalculateItem asciiUpper strNat masterConstructor itemConstructor) = 5"
    using w by (simp add: r enrich_fields)
  show "num_boxes (recalculateItem asciiUpper strNat masterConstructor itemConstructor) = Num 3"
    using n by (simp only: r)
  show "total_weight (recalculateItem asciiUpper strNat masterConstructor itemConstructor) = Num 15"
    by (simp add: r enrich_fields(2) n w round64_numeral)
qed

text \<open>
  C3 fails on the code for a SKU that names an inherited property. With the master holding
  the key \<^verbatim>\<open>CONSTRUCTOR\<close> and the SKU \<^verbatim>\<open>constructor\<close>, the SKU is no key of the master and the
  key has its normalization; the first lookup finds the inherited property, the tier is
  exact, and the configuration of the key is not used: the line item of 120 pieces gets the
  default 48 pieces per box and 5 kg, 3 boxes of 15 kg, where the key holds 50 pieces per
  box and 4 kg.
\<close>

theorem inherited_name_shadows_key:
  "map_of masterConstructor (js ''constructor'') = None \<and>
   set masterConstructor = {(js ''CONSTRUCTOR'', prod001)} \<and>
   normalizeSku asciiUpper (Present (js ''CONSTRUCTOR'')) =
     normalizeSku asciiUpper (Present (js ''constructor'')) \<and>
   matchConfig asciiUpper masterConstructor (Present (js ''constructor'')) =
     (inheritedMember, Exact) \<and>
   inheritedMember \<noteq> prod001 \<and>
   sku itemConstructor = Present (js ''constructor'') \<and>
   pieces_per_box prod001 = Some 50 \<and> box_weight_kg prod001 = Some 4 \<and>
   item_pieces_per_box (recalculateItem asciiUpper strNat masterConstructor itemConstructor) = 48 \<and>
   item_box_weight_kg (recalculateItem asciiUpper strNat masterConstructor itemConstructor) = 5 \<and>
   num_boxes (recalculateItem asciiUpper strNat masterConstructor itemConstructor) = Num 3 \<and>
   total_weight (recalculateItem asciiUpper strNat masterConstructor itemConstructor) = Num 15"
proof -
  have h: "map_of masterConstructor (js ''constructor'') = None"
    by (simp add: masterConstructor_def js_def)
  have "normalizeSku asciiUpper (Present (js ''CONSTRUCTOR'')) =
     normalizeSku asciiUpper (Present (js ''constructor''))"
    by (simp only: normalizeSku_constructor normalizeSku_CONSTRUCTOR)
  moreover have "set masterConstructor = {(js ''CONSTRUCTOR'', prod001)}"
    by (simp add: masterConstructor_def)
  moreover have "inheritedMember \<noteq> prod001"
    by (simp add: inheritedMember_def prod001_def)
  moreover have "sku itemConstructor = Present (js ''constructor'')"
    by (simp add: itemConstructor_def)
  moreover have "pieces_per_box prod001 = Some 50 \<and> box_weight_kg prod001 = Some 4"
    by (simp add: prod001_def)
  ultimately show ?thesis
    using h matchConfig_constructor [OF h, of asciiUpper] recalculateItem_constructor by blast
qed

text \<open>
  C5 fails on the code for a SKU that names an inherited property. The SKU \<^verbatim>\<open>constructor\<close>
  is no key of the master, its normalization is no key, and no key has its normalization;
  the first lookup finds the inherited property, the tier is exact, and the configuration
  is not the default configuration.
\<close>

theorem inherited_name_not_default:
  "map_of master1 (js ''constructor'') = None \<and>
   map_of master1 (normalizeSku asciiUpper (Present (js ''constructor''))) = None \<and>
   set master1 = {(js ''PROD-001'', prod001)} \<and>
   normalizeSku asciiUpper (Present (js ''PROD-001'')) \<noteq>
     normalizeSku asciiUpper (Present (js ''constructor'')) \<and>
   matchConfig asciiUpper master1 (Present (js ''constructor'')) = (inheritedMember, Exact) \<and>
   (inheritedMember, Exact) \<noteq> (asStored defaultBoxConfig, Default)"
proof -
  have h: "map_of master1 (js ''constructor'') = None"
    by (simp add: master1_def js_def)
  have "map_of master1 (normalizeSku asciiUpper (Present (js ''constructor''))) = None"
    by (simp only: normalizeSku_constructor) (simp add: master1_def js_def)
  moreover have "set master1 = {(js ''PROD-001'', prod001)}"
    by (simp add: master1_def)
  moreover have "normalizeSku asciiUpper (Present (js ''PROD-001'')) \<noteq>
     normalizeSku asciiUpper (Present (js ''constructor''))"
    by (simp only: normalizeSku_constructor normalizeSku_upper) (simp add: js_def)
  moreover have "(inheritedMember, Exact) \<noteq> (asStored defaultBoxConfig, Default)"
    by simp
  ultimately show ?thesis using h matchConfig_constructor [OF h, of asciiUpper] by blast
qed

section \<open>Totals are sums\<close>

lemma jsadd_NaN: "jsadd x NaN = NaN"
  by (cases x) simp_all

lemma jsadd_zero: "js64 x \<Longrightarrow> jsadd (Num 0) x = x"
  by (cases x) (simp_all add: binary64_def)

lemma jsadd_twice: "js64 x \<Longrightarrow> jsadd (jsadd (Num 0) x) x = jsmul (Num 2) (jsadd (Num 0) x)"
proof (cases x)
  case (Num a)
  assume "js64 x"
  with Num have "round64 a = Num a" by (simp add: binary64_def)
  moreover have "a + a = 2 * a" by simp
  ultimately show ?thesis using Num by simp
qed simp_all

lemma jsadd_twice_Num:
  "binary64 a \<Longrightarrow> jsadd (Num 0) (Num a) = Num a \<and>
     jsadd (jsadd (Num 0) (Num a)) (Num a) = round64 (2 * a)"
proof -
  assume "binary64 a"
  then have "round64 a = Num a" by (simp add: binary64_def)
  moreover have "a + a = 2 * a" by simp
  ultimately show ?thesis by simp
qed

lemma jsadd_twice_pinned:
  assumes "x = Num a" "binary64 a"
  shows "jsadd (Num 0) x = Num a" "jsadd (jsadd (Num 0) x) x = round64 (2 * a)"
  using jsadd_twice_Num [OF assms(2)] assms(1) by simp_all

text \<open>What the code computes for an item is a binary64 number, an infinity or NaN.\<close>

lemma js64_round64: "js64 (round64 x)"
  by (cases "round64 x") (simp_all add: binary64_def round64_idem)

lemma js64_jsceil_round64: "js64 (jsceil (round64 x))"
  by (cases "round64 x") (simp_all add: binary64_def round64_ceiling)

lemma js64_jsdiv: "js64 (jsceil (jsdiv x p))"
  by (cases x) (simp_all add: js64_jsceil_round64)

lemma js64_jsmul: "js64 (jsmul x y)"
  by (cases x; cases y) (simp_all add: js64_round64)

lemma js64_enrich:
  "js64 (num_boxes (enrich str config item))" "js64 (total_weight (enrich str config item))"
  by (simp_all add: enrich_fields js64_jsdiv js64_jsmul)

lemma js64_recalculateItem:
  "js64 (num_boxes (recalculateItem up str productMaster item))"
  "js64 (total_weight (recalculateItem up str productMaster item))"
  by (simp_all add: recalculateItem_def js64_enrich)

text \<open>Each total is the left fold of the addition over what the items contribute.\<close>

lemma foldl_totalsStep:
  "t_quantity (foldl totalsStep acc xs) =
     foldl jsadd (t_quantity acc) (map (\<lambda>x. toNumber (quantity x)) xs)"
  "boxes (foldl totalsStep acc xs) = foldl jsadd (boxes acc) (map num_boxes xs)"
  "weight (foldl totalsStep acc xs) = foldl jsadd (weight acc) (map total_weight xs)"
  "value (foldl totalsStep acc xs) =
     foldl jsadd (value acc) (map (\<lambda>x. toNumber (taxable_value x)) xs)"
  by (induction xs arbitrary: acc) (simp_all add: totalsStep_sel)

text \<open>Adding whole numbers whose sum is at most \<open>2 ^ 53\<close> gives their exact sum.\<close>

lemma foldl_jsadd_nat:
  "s + sum_list ns \<le> 2 ^ 53 \<Longrightarrow>
   foldl jsadd (Num (of_nat s)) (map (\<lambda>n. Num (of_nat n)) ns) = Num (of_nat (s + sum_list ns))"
proof (induction ns arbitrary: s)
  case Nil
  then show ?case by simp
next
  case (Cons n ns)
  from Cons.prems have le: "s + n \<le> 2 ^ 53" by simp
  have "jsadd (Num (of_nat s)) (Num (of_nat n)) = round64 (of_nat (s + n))" by simp
  also from le have "\<dots> = Num (of_nat (s + n))" by (rule round64_of_nat)
  finally have step: "jsadd (Num (of_nat s)) (Num (of_nat n)) = Num (of_nat (s + n))" .
  from Cons.prems have "(s + n) + sum_list ns \<le> 2 ^ 53" by simp
  from Cons.IH [OF this] step show ?case by (simp add: add.assoc)
qed

lemma foldl_jsadd_nat0:
  "sum_list ns \<le> 2 ^ 53 \<Longrightarrow>
   foldl jsadd (Num 0) (map (\<lambda>n. Num (of_nat n)) ns) = Num (of_nat (sum_list ns))"
  using foldl_jsadd_nat [of 0 ns] by simp

lemma toNumber_Present_map:
  "map f xs = map (\<lambda>n. Present (of_nat n)) ns \<Longrightarrow>
   map (\<lambda>x. toNumber (f x)) xs = map (\<lambda>n. Num (of_nat n)) ns"
proof -
  assume h: "map f xs = map (\<lambda>n. Present (of_nat n)) ns"
  have "map (\<lambda>x. toNumber (f x)) xs = map toNumber (map f xs)" by simp
  also have "\<dots> = map toNumber (map (\<lambda>n. Present (of_nat n)) ns)" by (simp only: h)
  also have "\<dots> = map (\<lambda>n. Num (of_nat n)) ns" by simp
  finally show ?thesis .
qed

lemma recalculateItem_raw:
  "quantity (recalculateItem up str productMaster item) = quantity item"
  "taxable_value (recalculateItem up str productMaster item) = taxable_value item"
  by (simp_all add: recalculateItem_def enrich_fields)

lemma totals_folds:
  fixes lineItems :: "'p line_item list"
  shows
  "t_quantity (snd (reconcile up str productMaster lineItems)) =
     foldl jsadd (Num 0) (map (\<lambda>x. toNumber (quantity x)) lineItems)"
  "boxes (snd (reconcile up str productMaster lineItems)) =
     foldl jsadd (Num 0) (map num_boxes (fst (reconcile up str productMaster lineItems)))"
  "weight (snd (reconcile up str productMaster lineItems)) =
     foldl jsadd (Num 0) (map total_weight (fst (reconcile up str productMaster lineItems)))"
  "value (snd (reconcile up str productMaster lineItems)) =
     foldl jsadd (Num 0) (map (\<lambda>x. toNumber (taxable_value x)) lineItems)"
  by (simp_all add: reconcile_parts foldl_totalsStep o_def recalculateItem_raw)

lemma totals_single:
  fixes item :: "'p line_item"
  shows
  "t_quantity (snd (reconcile up str productMaster [item])) =
     jsadd (Num 0) (toNumber (quantity item))"
  "boxes (snd (reconcile up str productMaster [item])) =
     jsadd (Num 0) (num_boxes (recalculateItem up str productMaster item))"
  "weight (snd (reconcile up str productMaster [item])) =
     jsadd (Num 0) (total_weight (recalculateItem up str productMaster item))"
  "value (snd (reconcile up str productMaster [item])) =
     jsadd (Num 0) (toNumber (taxable_value item))"
  by (simp_all add: totals_folds reconcile_parts(1))

lemma totals_twice:
  fixes item :: "'p line_item"
  shows
  "t_quantity (snd (reconcile up str productMaster [item, item])) =
     jsadd (jsadd (Num 0) (toNumber (quantity item))) (toNumber (quantity item))"
  "boxes (snd (reconcile up str productMaster [item, item])) =
     jsadd (jsadd (Num 0) (num_boxes (recalculateItem up str productMaster item)))
       (num_boxes (recalculateItem up str productMaster item))"
  "weight (snd (reconcile up str productMaster [item, item])) =
     jsadd (jsadd (Num 0) (total_weight (recalculateItem up str productMaster item)))
       (total_weight (recalculateItem up str productMaster item))"
  "value (snd (reconcile up str productMaster [item, item])) =
     jsadd (jsadd (Num 0) (toNumber (taxable_value item))) (toNumber (taxable_value item))"
  by (simp_all add: totals_folds reconcile_parts(1))

text \<open>Past \<open>2 ^ 53\<close> an addition rounds: adding 1 to \<open>2 ^ 53\<close> leaves it as it is.\<close>

lemma totals_rounded_sum:
  fixes item :: "'p line_item"
  shows "t_quantity (snd (reconcile up str productMaster
     [item\<lparr>quantity := Present 9007199254740992\<rparr>, item\<lparr>quantity := Present 1\<rparr>])) =
     Num 9007199254740992"
  using round64_example_sum by (simp add: totals_folds(1) round64_numeral)

text \<open>
  C7: the totals of no items are all zero. Each total is the sum, added up from zero in
  the order of the items with the addition of the language, of the quantities, the box
  counts, the weights and the taxable values; where these are whole numbers with a sum up
  to \<open>2 ^ 53\<close> the total is their exact sum. The totals of reconciling an item twice are in
  each field twice the totals of reconciling it once: twice the quantity, the box count,
  the weight and the taxable value of the item. Past \<open>2 ^ 53\<close> the rounded sum is what the
  code returns: the quantities \<open>2 ^ 53\<close> and 1 add up to \<open>2 ^ 53\<close>.
\<close>

theorem totals_additive:
  fixes item :: "'p line_item" and lineItems :: "'p line_item list"
  shows
  "snd (reconcile up str productMaster ([] :: 'p line_item list)) =
     \<lparr>t_quantity = Num 0, boxes = Num 0, weight = Num 0, value = Num 0\<rparr> \<and>
   t_quantity (snd (reconcile up str productMaster lineItems)) =
     foldl jsadd (Num 0) (map (\<lambda>x. toNumber (quantity x)) lineItems) \<and>
   boxes (snd (reconcile up str productMaster lineItems)) =
     foldl jsadd (Num 0) (map num_boxes (fst (reconcile up str productMaster lineItems))) \<and>
   weight (snd (reconcile up str productMaster lineItems)) =
     foldl jsadd (Num 0) (map total_weight (fst (reconcile up str productMaster lineItems))) \<and>
   value (snd (reconcile up str productMaster lineItems)) =
     foldl jsadd (Num 0) (map (\<lambda>x. toNumber (taxable_value x)) lineItems) \<and>
   (\<forall>ns. map quantity lineItems = map (\<lambda>n. Present (of_nat n)) ns \<and> sum_list ns \<le> 2 ^ 53 \<longrightarrow>
      t_quantity (snd (reconcile up str productMaster lineItems)) = Num (of_nat (sum_list ns))) \<and>
   (\<forall>ns. map num_boxes (fst (reconcile up str productMaster lineItems)) =
          map (\<lambda>n. Num (of_nat n)) ns \<and> sum_list ns \<le> 2 ^ 53 \<longrightarrow>
      boxes (snd (reconcile up str productMaster lineItems)) = Num (of_nat (sum_list ns))) \<and>
   (\<forall>ns. map total_weight (fst (reconcile up str productMaster lineItems)) =
          map (\<lambda>n. Num (of_nat n)) ns \<and> sum_list ns \<le> 2 ^ 53 \<longrightarrow>
      weight (snd (reconcile up str productMaster lineItems)) = Num (of_nat (sum_list ns))) \<and>
   (\<forall>ns. map taxable_value lineItems = map (\<lambda>n. Present (of_nat n)) ns \<and> sum_list ns \<le> 2 ^ 53 \<longrightarrow>
      value (snd (reconcile up str productMaster lineItems)) = Num (of_nat (sum_list ns))) \<and>
   (js64 (toNumber (quantity item)) \<longrightarrow>
      t_quantity (snd (reconcile up str productMaster [item, item])) =
        jsmul (Num 2) (t_quantity (snd (reconcile up str productMaster [item])))) \<and>
   boxes (snd (reconcile up str productMaster [item, item])) =
     jsmul (Num 2) (boxes (snd (reconcile up str productMaster [item]))) \<and>
   weight (snd (reconcile up str productMaster [item, item])) =
     jsmul (Num 2) (weight (snd (reconcile up str productMaster [item]))) \<and>
   (js64 (toNumber (taxable_value item)) \<longrightarrow>
      value (snd (reconcile up str productMaster [item, item])) =
        jsmul (Num 2) (value (snd (reconcile up str productMaster [item])))) \<and>
   (\<forall>a. quantity item = Present a \<and> binary64 a \<longrightarrow>
      t_quantity (snd (reconcile up str productMaster [item])) = Num a \<and>
      t_quantity (snd (reconcile up str productMaster [item, item])) = round64 (2 * a)) \<and>
   (\<forall>b. num_boxes (recalculateItem up str productMaster item) = Num b \<longrightarrow>
      boxes (snd (reconcile up str productMaster [item])) = Num b \<and>
      boxes (snd (reconcile up str productMaster [item, item])) = round64 (2 * b)) \<and>
   (\<forall>w. total_weight (recalculateItem up str productMaster item) = Num w \<longrightarrow>
      weight (snd (reconcile up str productMaster [item])) = Num w \<and>
      weight (snd (reconcile up str productMaster [item, item])) = round64 (2 * w)) \<and>
   (\<forall>v. taxable_value item = Present v \<and> binary64 v \<longrightarrow>
      value (snd (reconcile up str productMaster [item])) = Num v \<and>
      value (snd (reconcile up str productMaster [item, item])) = round64 (2 * v)) \<and>
   t_quantity (snd (reconcile up str productMaster
     [item\<lparr>quantity := Present 9007199254740992\<rparr>, item\<lparr>quantity := Present 1\<rparr>])) =
     Num 9007199254740992"
proof (intro conjI allI impI)
  show "snd (reconcile up str productMaster ([] :: 'p line_item list)) =
     \<lparr>t_quantity = Num 0, boxes = Num 0, weight = Num 0, value = Num 0\<rparr>"
    by (simp add: reconcile_parts)
  show "t_quantity (snd (reconcile up str productMaster lineItems)) =
     foldl jsadd (Num 0) (map (\<lambda>x. toNumber (quantity x)) lineItems)"
    by (rule totals_folds)
  show "boxes (snd (reconcile up str productMaster lineItems)) =
     foldl jsadd (Num 0) (map num_boxes (fst (reconcile up str productMaster lineItems)))"
    by (rule totals_folds)
  show "weight (snd (reconcile up str productMaster lineItems)) =
     foldl jsadd (Num 0) (map total_weight (fst (reconcile up str productMaster lineItems)))"
    by (rule totals_folds)
  show "value (snd (reconcile up str productMaster lineItems)) =
     foldl jsadd (Num 0) (map (\<lambda>x. toNumber (taxable_value x)) lineItems)"
    by (rule totals_folds)
next
  fix ns :: "nat list"
  assume "map quantity lineItems = map (\<lambda>n. Present (of_nat n)) ns \<and> sum_list ns \<le> 2 ^ 53"
  then show "t_quantity (snd (reconcile up str productMaster lineItems)) = Num (of_nat (sum_list ns))"
    by (simp only: totals_folds(1) toNumber_Present_map foldl_jsadd_nat0)
next
  fix ns :: "nat list"
  assume "map num_boxes (fst (reconcile up str productMaster lineItems)) =
          map (\<lambda>n. Num (of_nat n)) ns \<and> sum_list ns \<le> 2 ^ 53"
  then show "boxes (snd (reconcile up str productMaster lineItems)) = Num (of_nat (sum_list ns))"
    by (simp only: totals_folds(2) foldl_jsadd_nat0)
next
  fix ns :: "nat list"
  assume "map total_weight (fst (reconcile up str productMaster lineItems)) =
          map (\<lambda>n. Num (of_nat n)) ns \<and> sum_list ns \<le> 2 ^ 53"
  then show "weight (snd (reconcile up str productMaster lineItems)) = Num (of_nat (sum_list ns))"
    by (simp only: totals_folds(3) foldl_jsadd_nat0)
next
  fix ns :: "nat list"
  assume "map taxable_value lineItems = map (\<lambda>n. Present (of_nat n)) ns \<and> sum_list ns \<le> 2 ^ 53"
  then show "value (snd (reconcile up str productMaster lineItems)) = Num (of_nat (sum_list ns))"
    by (simp only: totals_folds(4) toNumber_Present_map foldl_jsadd_nat0)
next
  assume "js64 (toNumber (quantity item))"
  then show "t_quantity (snd (reconcile up str productMaster [item, item])) =
        jsmul (Num 2) (t_quantity (snd (reconcile up str productMaster [item])))"
    by (simp only: totals_single totals_twice jsadd_twice)
next
  show "boxes (snd (reconcile up str productMaster [item, item])) =
     jsmul (Num 2) (boxes (snd (reconcile up str productMaster [item])))"
    by (simp only: totals_single totals_twice jsadd_twice js64_recalculateItem)
  show "weight (snd (reconcile up str productMaster [item, item])) =
     jsmul (Num 2) (weight (snd (reconcile up str productMaster [item])))"
    by (simp only: totals_single totals_twice jsadd_twice js64_recalculateItem)
next
  assume "js64 (toNumber (taxable_value item))"
  then show "value (snd (reconcile up str productMaster [item, item])) =
        jsmul (Num 2) (value (snd (reconcile up str productMaster [item])))"
    by (simp only: totals_single totals_twice jsadd_twice)
next
  fix a assume h: "quantity item = Present a \<and> binary64 a"
  then have x: "toNumber (quantity item) = Num a" and b: "binary64 a" by simp_all
  show "t_quantity (snd (reconcile up str productMaster [item])) = Num a"
    by (simp only: totals_single jsadd_twice_pinned(1) [OF x b])
  show "t_quantity (snd (reconcile up str productMaster [item, item])) = round64 (2 * a)"
    by (simp only: totals_twice jsadd_twice_pinned(2) [OF x b])
next
  fix b assume x: "num_boxes (recalculateItem up str productMaster item) = Num b"
  with js64_recalculateItem(1) [of up str productMaster item] have b: "binary64 b" by simp
  show "boxes (snd (reconcile up str productMaster [item])) = Num b"
    by (simp only: totals_single jsadd_twice_pinned(1) [OF x b])
  show "boxes (snd (reconcile up str productMaster [item, item])) = round64 (2 * b)"
    by (simp only: totals_twice jsadd_twice_pinned(2) [OF x b])
next
  fix w assume x: "total_weight (recalculateItem up str productMaster item) = Num w"
  with js64_recalculateItem(2) [of up str productMaster item] have b: "binary64 w" by simp
  show "weight (snd (reconcile up str productMaster [item])) = Num w"
    by (simp only: totals_single jsadd_twice_pinned(1) [OF x b])
  show "weight (snd (reconcile up str productMaster [item, item])) = round64 (2 * w)"
    by (simp only: totals_twice jsadd_twice_pinned(2) [OF x b])
next
  fix v assume h: "taxable_value item = Present v \<and> binary64 v"
  then have x: "toNumber (taxable_value item) = Num v" and b: "binary64 v" by simp_all
  show "value (snd (reconcile up str productMaster [item])) = Num v"
    by (simp only: totals_single jsadd_twice_pinned(1) [OF x b])
  show "value (snd (reconcile up str productMaster [item, item])) = round64 (2 * v)"
    by (simp only: totals_twice jsadd_twice_pinned(2) [OF x b])
next
  show "t_quantity (snd (reconcile up str productMaster
     [item\<lparr>quantity := Present 9007199254740992\<rparr>, item\<lparr>quantity := Present 1\<rparr>])) =
     Num 9007199254740992"
    by (rule totals_rounded_sum)
qed

theorem totals_additive_witness:
  "map quantity [item1, item1] = map (\<lambda>n. Present (of_nat n)) [120, 120] \<and>
   sum_list [120, 120 :: nat] \<le> 2 ^ 53 \<and>
   t_quantity (snd (reconcile asciiUpper strNat master1 [item1, item1])) = Num 240 \<and>
   map num_boxes (fst (reconcile asciiUpper strNat master1 [item1, item1])) =
     map (\<lambda>n. Num (of_nat n)) [3, 3] \<and>
   boxes (snd (reconcile asciiUpper strNat master1 [item1, item1])) = Num 6 \<and>
   map total_weight (fst (reconcile asciiUpper strNat master1 [item1, item1])) =
     map (\<lambda>n. Num (of_nat n)) [12, 12] \<and>
   weight (snd (reconcile asciiUpper strNat master1 [item1, item1])) = Num 24 \<and>
   map taxable_value [item1, item1] = map (\<lambda>n. Present (of_nat n)) [1000, 1000] \<and>
   value (snd (reconcile asciiUpper strNat master1 [item1, item1])) = Num 2000 \<and>
   quantity item1 = Present 120 \<and> binary64 120 \<and>
   t_quantity (snd (reconcile asciiUpper strNat master1 [item1])) = Num 120"
proof -
  note t = totals_additive [where up = asciiUpper and str = strNat and productMaster = master1
      and lineItems = "[item1, item1]" and item = item1]
  note c2 = conjunct2
  have hq: "map quantity [item1, item1] = map (\<lambda>n. Present (of_nat n)) [120, 120] \<and>
      sum_list [120, 120 :: nat] \<le> 2 ^ 53"
    by (simp add: item1_def)
  have hv: "map taxable_value [item1, item1] = map (\<lambda>n. Present (of_nat n)) [1000, 1000] \<and>
      sum_list [1000, 1000 :: nat] \<le> 2 ^ 53"
    by (simp add: item1_def)
  have hb: "map num_boxes (fst (reconcile asciiUpper strNat master1 [item1, item1])) =
      map (\<lambda>n. Num (of_nat n)) [3, 3] \<and> sum_list [3, 3 :: nat] \<le> 2 ^ 53"
    by (simp add: reconcile_parts(1) recalculateItem_item1 enrich_item1)
  have hw: "map total_weight (fst (reconcile asciiUpper strNat master1 [item1, item1])) =
      map (\<lambda>n. Num (of_nat n)) [12, 12] \<and> sum_list [12, 12 :: nat] \<le> 2 ^ 53"
    by (simp add: reconcile_parts(1) recalculateItem_item1 enrich_item1)
  have ha: "quantity item1 = Present 120 \<and> binary64 120"
    by (simp add: item1_def binary64_def round64_numeral)
  from t [THEN c2, THEN c2, THEN c2, THEN c2, THEN c2, THEN conjunct1, rule_format, OF hq]
  have rq: "t_quantity (snd (reconcile asciiUpper strNat master1 [item1, item1])) = Num 240"
    by simp
  from t [THEN c2, THEN c2, THEN c2, THEN c2, THEN c2, THEN c2, THEN conjunct1, rule_format, OF hb]
  have rb: "boxes (snd (reconcile asciiUpper strNat master1 [item1, item1])) = Num 6"
    by simp
  from t [THEN c2, THEN c2, THEN c2, THEN c2, THEN c2, THEN c2, THEN c2, THEN conjunct1,
      rule_format, OF hw]
  have rw: "weight (snd (reconcile asciiUpper strNat master1 [item1, item1])) = Num 24"
    by simp
  from t [THEN c2, THEN c2, THEN c2, THEN c2, THEN c2, THEN c2, THEN c2, THEN c2, THEN conjunct1,
      rule_format, OF hv]
  have rv: "value (snd (reconcile asciiUpper strNat master1 [item1, item1])) = Num 2000"
    by simp
  from t [THEN c2, THEN c2, THEN c2, THEN c2, THEN c2, THEN c2, THEN c2, THEN c2, THEN c2,
      THEN c2, THEN c2, THEN c2, THEN c2, THEN conjunct1, rule_format, OF ha]
  have r1: "t_quantity (snd (reconcile asciiUpper strNat master1 [item1])) = Num 120"
    by (rule conjunct1)
  from hq hv hb hw ha rq rb rw rv r1 show ?thesis by blast
qed

section \<open>Line items with missing fields\<close>

lemma foldl_totalsStep_NaN:
  "t_quantity acc = NaN \<Longrightarrow> t_quantity (foldl totalsStep acc xs) = NaN"
  "boxes acc = NaN \<Longrightarrow> boxes (foldl totalsStep acc xs) = NaN"
  "weight acc = NaN \<Longrightarrow> weight (foldl totalsStep acc xs) = NaN"
  by (induction xs arbitrary: acc) (simp_all add: totalsStep_sel)

lemma foldl_totalsStep_quantity:
  "e \<in> set xs \<Longrightarrow> quantity e = Absent \<Longrightarrow> t_quantity (foldl totalsStep acc xs) = NaN"
proof (induction xs arbitrary: acc)
  case Nil
  then show ?case by simp
next
  case (Cons x xs)
  show ?case
  proof (cases "e = x")
    case True
    with Cons.prems have "t_quantity (totalsStep acc x) = NaN"
      by (simp add: totalsStep_sel jsadd_NaN)
    then show ?thesis by (simp add: foldl_totalsStep_NaN)
  next
    case False
    with Cons show ?thesis by simp
  qed
qed

lemma foldl_totalsStep_boxes:
  "e \<in> set xs \<Longrightarrow> num_boxes e = NaN \<Longrightarrow> boxes (foldl totalsStep acc xs) = NaN"
proof (induction xs arbitrary: acc)
  case Nil
  then show ?case by simp
next
  case (Cons x xs)
  show ?case
  proof (cases "e = x")
    case True
    with Cons.prems have "boxes (totalsStep acc x) = NaN"
      by (simp add: totalsStep_sel jsadd_NaN)
    then show ?thesis by (simp add: foldl_totalsStep_NaN)
  next
    case False
    with Cons show ?thesis by simp
  qed
qed

lemma foldl_totalsStep_weight:
  "e \<in> set xs \<Longrightarrow> total_weight e = NaN \<Longrightarrow> weight (foldl totalsStep acc xs) = NaN"
proof (induction xs arbitrary: acc)
  case Nil
  then show ?case by simp
next
  case (Cons x xs)
  show ?case
  proof (cases "e = x")
    case True
    with Cons.prems have "weight (totalsStep acc x) = NaN"
      by (simp add: totalsStep_sel jsadd_NaN)
    then show ?thesis by (simp add: foldl_totalsStep_NaN)
  next
    case False
    with Cons show ?thesis by simp
  qed
qed

lemma enrich_absent:
  "quantity item = Absent \<Longrightarrow>
     num_boxes (enrich str config item) = NaN \<and> total_weight (enrich str config item) = NaN \<and>
     quantity (enrich str config item) = Absent"
  by (simp add: enrich_def Let_def)

text \<open>
  C6, as the claim states it, fails: for a line item without quantity reconciliation reports
  no error; it returns an enriched item whose box count and weight are NaN, and totals
  whose quantity, boxes and weight are NaN.
\<close>

theorem missing_quantity_counterexample:
  "reconcile asciiUpper strNat master1 [itemNoQuantity] =
     ([\<lparr>sku = Present (js ''PROD-001''), quantity = Absent, taxable_value = Present 1000,
        passthrough = (), item_pieces_per_box = 50, item_box_weight_kg = 4,
        box_dimensions = js ''30'' @ dimSep @ js ''20'' @ dimSep @ js ''15'',
        num_boxes = NaN, total_weight = NaN\<rparr>],
      \<lparr>t_quantity = NaN, boxes = NaN, weight = NaN, value = Num 1000\<rparr>)"
proof -
  have "recalculateItem asciiUpper strNat master1 itemNoQuantity = enrich strNat prod001 itemNoQuantity"
    unfolding recalculateItem_def
    by (simp only: itemNoQuantity_def line_item.simps matchConfig_item1 fst_conv)
  moreover have "enrich strNat prod001 itemNoQuantity =
     \<lparr>sku = Present (js ''PROD-001''), quantity = Absent, taxable_value = Present 1000,
      passthrough = (), item_pieces_per_box = 50, item_box_weight_kg = 4,
      box_dimensions = js ''30'' @ dimSep @ js ''20'' @ dimSep @ js ''15'',
      num_boxes = NaN, total_weight = NaN\<rparr>"
    by (simp add: enrich_def itemNoQuantity_def prod001_def orDefault_def defaultBoxConfig_def
        strNat_def js_def Let_def)
  ultimately show ?thesis
    by (simp add: prod_eq_iff reconcile_parts totalsStep_def round64_numeral)
qed

text \<open>
  C6, amended: reconciliation never reports an error, neither for an unmatched SKU nor for
  a line item without quantity or without SKU; it returns one enriched item for each line
  item. A line item without quantity gets NaN as box count and as weight, and then the
  quantity, the boxes and the weight of the totals are NaN. A line item without SKU is
  looked up under the key \<^verbatim>\<open>undefined\<close> and under the empty normalized SKU, and gets the
  default configuration when the master has neither key and no key normalizes to the empty
  string.
\<close>

theorem reconcile_permissive:
  fixes lineItems :: "'p line_item list"
  shows
  "length (fst (reconcile up str productMaster lineItems)) = length lineItems \<and>
   (\<forall>item \<in> set lineItems. quantity item = Absent \<longrightarrow>
      num_boxes (recalculateItem up str productMaster item) = NaN \<and>
      total_weight (recalculateItem up str productMaster item) = NaN \<and>
      t_quantity (snd (reconcile up str productMaster lineItems)) = NaN \<and>
      boxes (snd (reconcile up str productMaster lineItems)) = NaN \<and>
      weight (snd (reconcile up str productMaster lineItems)) = NaN) \<and>
   (\<forall>item \<in> set lineItems. sku item = Absent \<longrightarrow>
      map_of productMaster (js ''undefined'') = None \<longrightarrow>
      map_of productMaster [] = None \<longrightarrow>
      (\<forall>(key, c) \<in> set productMaster. normalizeSku up (Present key) \<noteq> []) \<longrightarrow>
      recalculateItem up str productMaster item = enrich str (asStored defaultBoxConfig) item)"
proof (intro conjI ballI impI)
  show "length (fst (reconcile up str productMaster lineItems)) = length lineItems"
    by (simp add: reconcile_parts)
next
  fix item :: "'p line_item" assume "item \<in> set lineItems" "quantity item = Absent"
  then show "num_boxes (recalculateItem up str productMaster item) = NaN"
    and "total_weight (recalculateItem up str productMaster item) = NaN"
    by (simp_all add: recalculateItem_def enrich_absent)
next
  fix item :: "'p line_item" assume a: "item \<in> set lineItems" "quantity item = Absent"
  let ?e = "recalculateItem up str productMaster item"
  from a have mem: "?e \<in> set (map (recalculateItem up str productMaster) lineItems)" by simp
  from a have q: "quantity ?e = Absent" "num_boxes ?e = NaN" "total_weight ?e = NaN"
    by (simp_all add: recalculateItem_def enrich_absent)
  show "t_quantity (snd (reconcile up str productMaster lineItems)) = NaN"
    using foldl_totalsStep_quantity [OF mem q(1)]
    by (simp add: reconcile_parts)
  show "boxes (snd (reconcile up str productMaster lineItems)) = NaN"
    using foldl_totalsStep_boxes [OF mem q(2)]
    by (simp add: reconcile_parts)
  show "weight (snd (reconcile up str productMaster lineItems)) = NaN"
    using foldl_totalsStep_weight [OF mem q(3)]
    by (simp add: reconcile_parts)
next
  fix item :: "'p line_item"
  assume "sku item = Absent" "map_of productMaster (js ''undefined'') = None"
    "map_of productMaster [] = None"
    "\<forall>(key, c) \<in> set productMaster. normalizeSku up (Present key) \<noteq> []"
  then have "matchConfig up productMaster (sku item) = (asStored defaultBoxConfig, Default)"
    by (intro matchConfig_default)
      (simp_all add: lookupKey_None undefined_not_inherited empty_not_inherited
        del: normalizeSku.simps(1))
  then show "recalculateItem up str productMaster item = enrich str (asStored defaultBoxConfig) item"
    by (simp add: recalculateItem_def)
qed

theorem reconcile_permissive_witness:
  "itemNoQuantity \<in> set [itemNoQuantity, itemNoSku] \<and> quantity itemNoQuantity = Absent \<and>
   itemNoSku \<in> set [itemNoQuantity, itemNoSku] \<and> sku itemNoSku = Absent \<and>
   map_of master1 (js ''undefined'') = None \<and> map_of master1 [] = None \<and>
   set master1 = {(js ''PROD-001'', prod001)} \<and>
   normalizeSku asciiUpper (Present (js ''PROD-001'')) \<noteq> [] \<and>
   length (fst (reconcile asciiUpper strNat master1 [itemNoQuantity, itemNoSku])) = 2 \<and>
   num_boxes (recalculateItem asciiUpper strNat master1 itemNoQuantity) = NaN \<and>
   boxes (snd (reconcile asciiUpper strNat master1 [itemNoQuantity, itemNoSku])) = NaN \<and>
   recalculateItem asciiUpper strNat master1 itemNoSku =
     enrich strNat (asStored defaultBoxConfig) itemNoSku"
proof -
  note t = reconcile_permissive [of asciiUpper strNat master1 "[itemNoQuantity, itemNoSku]"]
  have h1: "itemNoQuantity \<in> set [itemNoQuantity, itemNoSku]" by simp
  have h2: "quantity itemNoQuantity = Absent" by (simp add: itemNoQuantity_def)
  have h3: "itemNoSku \<in> set [itemNoQuantity, itemNoSku]" by simp
  have h4: "sku itemNoSku = Absent" by (simp add: itemNoSku_def)
  have h5: "map_of master1 (js ''undefined'') = None" by (simp add: master1_def js_def)
  have h6: "map_of master1 [] = None" by (simp add: master1_def js_def)
  have keys: "set master1 = {(js ''PROD-001'', prod001)}"
    by (simp add: master1_def)
  have ne: "normalizeSku asciiUpper (Present (js ''PROD-001'')) \<noteq> []"
    by (simp only: normalizeSku_upper) (simp add: js_def)
  from keys ne have h7: "\<forall>(key, c) \<in> set master1. normalizeSku asciiUpper (Present key) \<noteq> []"
    by (simp del: normalizeSku.simps)
  have len: "length [itemNoQuantity, itemNoSku] = 2" by simp
  from t have a: "length (fst (reconcile asciiUpper strNat master1 [itemNoQuantity, itemNoSku])) =
      length [itemNoQuantity, itemNoSku]"
    by (rule conjunct1)
  from t h1 h2 have b: "num_boxes (recalculateItem asciiUpper strNat master1 itemNoQuantity) = NaN"
    and c: "boxes (snd (reconcile asciiUpper strNat master1 [itemNoQuantity, itemNoSku])) = NaN"
    by blast+
  from t h3 h4 h5 h6 h7 have d: "recalculateItem asciiUpper strNat master1 itemNoSku =
     enrich strNat (asStored defaultBoxConfig) itemNoSku"
    by blast
  from h1 h2 h3 h4 h5 h6 keys ne a [unfolded len] b c d show ?thesis by blast
qed

section \<open>The stored invoice history\<close>

text \<open>
  C10: after a POST the stored list has at most 100 entries, the new invoice is its first
  entry, and the list is the new invoice followed by the invoices stored before, in their
  order, cut after 100 entries.
\<close>

theorem post_invoices_bounded:
  "\<exists>stored. fst (post_invoices now stamp body file) = Some stored \<and>
     length stored \<le> 100 \<and>
     hd stored = newInvoice now stamp body \<and>
     stored = take 100 (newInvoice now stamp body # readInvoices file) \<and>
     tl stored = take 99 (readInvoices file)"
  by (simp add: post_invoices_def Let_def)

end
